theory Spec2Isabelle
  imports Complex_Main "HOL-Library.Multiset" "HOL-Library.Sublist"
begin

section \<open>Python values and strings\<close>

text \<open>
  The wrapper (\<^verbatim>\<open>gw.py\<close>, class \<^verbatim>\<open>InteractiveGitWrapper\<close>) keeps its settings in a Python
  dict filled from a JSON file, so a setting can hold any value JSON can express. A float
  is modelled by the real number it denotes; the literals \<^verbatim>\<open>NaN\<close> and \<^verbatim>\<open>Infinity\<close> that
  Python's parser also accepts are not modelled. Strings are \<^typ>\<open>string\<close>; the model's
  \<^verbatim>\<open>strip\<close> removes the ASCII white space characters only.
\<close>

datatype json =
    JNull
  | JBool bool
  | JInt int
  | JFloat real
  | JStr string
  | JList "json list"
  | JObj "(string \<times> json) list"

text \<open>The exceptions the modelled code can meet.\<close>

datatype exn =
    TypeError | ValueError | UnicodeDecodeError | KeyError | OSError | EOFError

text \<open>Truth value of a Python object in a boolean context (\<^verbatim>\<open>if x:\<close>, \<^verbatim>\<open>x and y\<close>).\<close>

fun truthy :: "json \<Rightarrow> bool" where
  "truthy JNull = False"
| "truthy (JBool b) = b"
| "truthy (JInt i) = (i \<noteq> 0)"
| "truthy (JFloat r) = (r \<noteq> 0)"
| "truthy (JStr s) = (s \<noteq> [])"
| "truthy (JList xs) = (xs \<noteq> [])"
| "truthy (JObj kvs) = (kvs \<noteq> [])"

text \<open>\<^verbatim>\<open>x and y\<close> returns one of its operands.\<close>

definition py_and :: "json \<Rightarrow> json \<Rightarrow> json" where
  "py_and x y = (if truthy x then y else x)"

definition is_space :: "char \<Rightarrow> bool" where
  "is_space c \<longleftrightarrow>
     c = CHR '' '' \<or> c = CHR 0x09 \<or> c = CHR 0x0A \<or> c = CHR 0x0B \<or> c = CHR 0x0C \<or>
     c = CHR 0x0D \<or> c = CHR 0x1C \<or> c = CHR 0x1D \<or> c = CHR 0x1E \<or> c = CHR 0x1F"

definition strip :: "string \<Rightarrow> string" where
  "strip s = rev (dropWhile is_space (rev (dropWhile is_space s)))"

text \<open>\<^verbatim>\<open>s.split(sep)\<close> with a one-character separator: empty fields are kept.\<close>

fun split_on :: "char \<Rightarrow> string \<Rightarrow> string list" where
  "split_on sep [] = [[]]"
| "split_on sep (c # cs) =
     (if c = sep then [] # split_on sep cs
      else (case split_on sep cs of
              [] \<Rightarrow> [[c]]
            | w # ws \<Rightarrow> (c # w) # ws))"

text \<open>\<^verbatim>\<open>sep.join(xs)\<close>.\<close>

fun join :: "string \<Rightarrow> string list \<Rightarrow> string" where
  "join sep [] = []"
| "join sep [x] = x"
| "join sep (x # y # ys) = x @ sep @ join sep (y # ys)"

text \<open>\<^verbatim>\<open>sub in s\<close>, \<^verbatim>\<open>s.startswith(p)\<close> and \<^verbatim>\<open>s.endswith(p)\<close> on strings.\<close>

fun py_in :: "string \<Rightarrow> string \<Rightarrow> bool" where
  "py_in sub [] = (sub = [])"
| "py_in sub (c # cs) = (prefix sub (c # cs) \<or> py_in sub cs)"

definition startswith :: "string \<Rightarrow> string \<Rightarrow> bool" where
  "startswith s p = prefix p s"

definition endswith :: "string \<Rightarrow> string \<Rightarrow> bool" where
  "endswith s p = prefix (rev p) (rev s)"

text \<open>
  \<^verbatim>\<open>int(s)\<close> on a string: optional sign, then decimal digits, where single underscores
  may stand between digits; white space around the number is ignored. Anything else is a
  \<^verbatim>\<open>ValueError\<close>, here \<open>None\<close>. (Python also accepts the decimal digits of other scripts;
  they are not modelled.)
\<close>

definition is_digit :: "char \<Rightarrow> bool" where
  "is_digit c \<longleftrightarrow> c \<in> set ''0123456789''"

definition digit_val :: "char \<Rightarrow> nat" where
  "digit_val c = of_char c - 48"

fun parse_digits :: "nat \<Rightarrow> string \<Rightarrow> nat option" where
  "parse_digits acc [] = Some acc"
| "parse_digits acc (c # cs) =
     (if is_digit c then parse_digits (10 * acc + digit_val c) cs
      else if c = CHR ''_'' then
        (case cs of
           [] \<Rightarrow> None
         | d # ds \<Rightarrow> if is_digit d then parse_digits (10 * acc + digit_val d) ds else None)
      else None)"

definition parse_nat :: "string \<Rightarrow> nat option" where
  "parse_nat s =
     (case s of
        [] \<Rightarrow> None
      | c # cs \<Rightarrow> if is_digit c then parse_digits (digit_val c) cs else None)"

definition py_int :: "string \<Rightarrow> int option" where
  "py_int s =
     (case strip s of
        [] \<Rightarrow> None
      | c # cs \<Rightarrow>
          if c = CHR ''-'' then map_option (\<lambda>n. - int n) (parse_nat cs)
          else if c = CHR ''+'' then map_option int (parse_nat cs)
          else map_option int (parse_nat (c # cs)))"

text \<open>
  \<^verbatim>\<open>xs[i:]\<close>: a negative start counts from the end, and a start outside the list is
  clamped to it.
\<close>

definition slice_from :: "int \<Rightarrow> 'a list \<Rightarrow> 'a list" where
  "slice_from i xs =
     (let n = int (length xs);
          j = (if i < 0 then max (n + i) 0 else min i n)
      in drop (nat j) xs)"

section \<open>The settings dict\<close>

text \<open>
  A Python dict keeps its keys in insertion order. Keys are compared with \<^verbatim>\<open>==\<close>, under
  which \<^verbatim>\<open>True\<close>, \<^verbatim>\<open>1\<close> and \<^verbatim>\<open>1.0\<close> are one key. Lists and dicts cannot be keys.
\<close>

type_synonym dict = "(json \<times> json) list"

fun py_num :: "json \<Rightarrow> real option" where
  "py_num (JBool b) = Some (if b then 1 else 0)"
| "py_num (JInt i) = Some (real_of_int i)"
| "py_num (JFloat r) = Some r"
| "py_num _ = None"

definition key_eq :: "json \<Rightarrow> json \<Rightarrow> bool" where
  "key_eq a b = (case py_num a of Some x \<Rightarrow> py_num b = Some x | None \<Rightarrow> a = b)"

fun hashable :: "json \<Rightarrow> bool" where
  "hashable (JList _) = False"
| "hashable (JObj _) = False"
| "hashable _ = True"

text \<open>\<^verbatim>\<open>d[k] = v\<close>, \<^verbatim>\<open>d.get(k)\<close> and \<^verbatim>\<open>d.get(k, default)\<close>.\<close>

fun dict_set :: "dict \<Rightarrow> json \<Rightarrow> json \<Rightarrow> dict" where
  "dict_set [] k v = [(k, v)]"
| "dict_set ((k', v') # d) k v =
     (if key_eq k' k then (k', v) # d else (k', v') # dict_set d k v)"

fun dict_get :: "dict \<Rightarrow> json \<Rightarrow> json option" where
  "dict_get [] k = None"
| "dict_get ((k', v') # d) k = (if key_eq k' k then Some v' else dict_get d k)"

definition dict_get_default :: "dict \<Rightarrow> json \<Rightarrow> json \<Rightarrow> json" where
  "dict_get_default d k dflt = (case dict_get d k of None \<Rightarrow> dflt | Some v \<Rightarrow> v)"

text \<open>
  \<^verbatim>\<open>d.update(other)\<close>. A dict argument stores each of its items. Any other argument
  is iterated, and each element must itself be a sequence of length two, read as a key
  and a value: a two-element list, a two-character string, or a dict with two keys.
  Items stored before a bad element stay stored.
\<close>

fun pair_of :: "json \<Rightarrow> exn + (json \<times> json)" where
  "pair_of (JList [k, v]) = Inr (k, v)"
| "pair_of (JList _) = Inl ValueError"
| "pair_of (JStr [a, b]) = Inr (JStr [a], JStr [b])"
| "pair_of (JStr _) = Inl ValueError"
| "pair_of (JObj [(k1, _), (k2, _)]) = Inr (JStr k1, JStr k2)"
| "pair_of (JObj _) = Inl ValueError"
| "pair_of _ = Inl TypeError"

fun update_pairs :: "dict \<Rightarrow> json list \<Rightarrow> (exn + unit) \<times> dict" where
  "update_pairs d [] = (Inr (), d)"
| "update_pairs d (x # xs) =
     (case pair_of x of
        Inl e \<Rightarrow> (Inl e, d)
      | Inr (k, v) \<Rightarrow>
          if hashable k then update_pairs (dict_set d k v) xs else (Inl TypeError, d))"

fun update_items :: "dict \<Rightarrow> (string \<times> json) list \<Rightarrow> dict" where
  "update_items d [] = d"
| "update_items d ((k, v) # kvs) = update_items (dict_set d (JStr k) v) kvs"

fun dict_update :: "dict \<Rightarrow> json \<Rightarrow> (exn + unit) \<times> dict" where
  "dict_update d (JObj kvs) = (Inr (), update_items d kvs)"
| "dict_update d (JList xs) = update_pairs d xs"
| "dict_update d (JStr s) = (if s = [] then (Inr (), d) else (Inl ValueError, d))"
| "dict_update d _ = (Inl TypeError, d)"

subsection \<open>\<^verbatim>\<open>load_config\<close>\<close>

text \<open>
  What \<^verbatim>\<open>load_config\<close> can find at the path of the settings file: no file; a file that
  cannot be opened or read (\<^verbatim>\<open>IOError\<close>); bytes that are not text in the locale's encoding
  (\<^verbatim>\<open>UnicodeDecodeError\<close>, which is neither of the two exceptions the method catches); text
  that is not JSON (\<^verbatim>\<open>JSONDecodeError\<close>); or the text of a JSON value, given here by the
  value \<^verbatim>\<open>json.load\<close> returns.
\<close>

datatype file_state = Missing | Unreadable | Undecodable | Garbled | Holds json

definition default_config :: dict where
  "default_config =
     [(JStr ''name'', JStr []), (JStr ''email'', JStr []),
      (JStr ''default_branch'', JStr ''main''),
      (JStr ''auto_push'', JBool True), (JStr ''show_emoji'', JBool True),
      (JStr ''default_remote'', JStr ''origin''),
      (JStr ''use_colors'', JBool True), (JStr ''parallel_push'', JBool True),
      (JStr ''max_history'', JInt 20)]"

text \<open>
  The result is the exception that leaves the method, if any, and the value of
  \<^verbatim>\<open>self.config\<close> afterwards.
\<close>

definition load_config :: "file_state \<Rightarrow> (exn + unit) \<times> dict" where
  "load_config f =
     (case f of
        Missing \<Rightarrow> (Inr (), default_config)
      | Unreadable \<Rightarrow> (Inr (), default_config)
      | Undecodable \<Rightarrow> (Inl UnicodeDecodeError, default_config)
      | Garbled \<Rightarrow> (Inr (), default_config)
      | Holds v \<Rightarrow> dict_update default_config v)"

section \<open>The wrapper object, the terminal and the external tool\<close>

text \<open>
  Text the program builds with an f-string is kept as the list of its parts: the
  literal parts, and the values put between them, which Python renders with
  \<^verbatim>\<open>str\<close>. The rendering of a value is not modelled.
\<close>

datatype piece = Lit string | Val json | Bytes string | Exc exn

type_synonym fstring = "piece list"

text \<open>
  What the terminal shows, in order. The five \<^verbatim>\<open>print_*\<close> helpers differ in the emoji
  and the colour they add, which depend on the settings and are not modelled. \<open>Input\<close>
  is the prompt of a call of \<^verbatim>\<open>input\<close>.
\<close>

datatype event =
    PrintSuccess fstring
  | PrintError fstring
  | PrintInfo fstring
  | PrintWorking fstring
  | Print fstring
  | Input fstring

record entry =
  command :: fstring
  description :: fstring
  timestamp :: real

text \<open>
  The state the methods read and write: the attributes \<^verbatim>\<open>self.config\<close> and
  \<^verbatim>\<open>self.history\<close>, the content of the history file (\<open>None\<close> until the program has
  written it), the lines still to be typed at the keyboard, what has been printed, and
  the argument vectors handed to \<^verbatim>\<open>subprocess.run\<close> so far.
\<close>

record gw =
  config :: dict
  history :: "entry list"
  history_file :: "entry list option"
  stdin :: "string list"
  out :: "event list"
  invoked :: "string list list"

text \<open>
  A call of \<^verbatim>\<open>subprocess.run(cmd, check=True)\<close> either runs the tool, which exits with a
  return code and the bytes it wrote to its standard output and its standard error, or
  raises before there is an exit status (the tool cannot be started). A non-zero return
  code becomes \<^verbatim>\<open>CalledProcessError\<close> inside \<^verbatim>\<open>subprocess.run\<close>.
\<close>

datatype proc_result = Exited int string string | Raises exn

text \<open>
  The surroundings of one run: how the tool answers each argument vector, in which
  order the futures of a parallel push are handed to the main thread (see
  \<open>as_completed\<close> below), what \<^verbatim>\<open>time.time()\<close> returns, and whether the history file can
  be written. One value stands for the clock during a run: the time stamps only mark
  the entries, and no property below reads them. \<open>decode\<close> is the encoding of the
  locale, which Python uses to read captured bytes as text: \<open>None\<close> for bytes that are
  not text in that encoding.
\<close>

record world =
  git :: "string list \<Rightarrow> proc_result"
  decode :: "string \<Rightarrow> string option"
  schedule :: "nat list"
  clock :: real
  history_writable :: bool

type_synonym 'a action = "gw \<Rightarrow> (exn + 'a) \<times> gw"

definition ret :: "'a \<Rightarrow> 'a action" where
  "ret x s = (Inr x, s)"

definition raise :: "exn \<Rightarrow> 'a action" where
  "raise e s = (Inl e, s)"

text \<open>Sequencing: an exception of the first action skips the second.\<close>

definition andthen :: "'a action \<Rightarrow> ('a \<Rightarrow> 'b action) \<Rightarrow> 'b action" where
  "andthen m f s = (case m s of (Inl e, s') \<Rightarrow> (Inl e, s') | (Inr x, s') \<Rightarrow> f x s')"

definition emit :: "event \<Rightarrow> gw \<Rightarrow> gw" where
  "emit ev s = s\<lparr>out := out s @ [ev]\<rparr>"

definition say :: "event \<Rightarrow> unit action" where
  "say ev s = (Inr (), emit ev s)"

text \<open>\<^verbatim>\<open>input(prompt)\<close>: the next line typed, or \<^verbatim>\<open>EOFError\<close> at the end of the input.\<close>

definition input :: "fstring \<Rightarrow> string action" where
  "input prompt s =
     (case stdin s of
        [] \<Rightarrow> (Inl EOFError, emit (Input prompt) s)
      | l # ls \<Rightarrow> (Inr l, (emit (Input prompt) s)\<lparr>stdin := ls\<rparr>))"

fun strs_of :: "json list \<Rightarrow> string list option" where
  "strs_of [] = Some []"
| "strs_of (JStr a # xs) = map_option ((#) a) (strs_of xs)"
| "strs_of (_ # xs) = None"

text \<open>
  \<^verbatim>\<open>subprocess.run\<close> raises \<^verbatim>\<open>TypeError\<close>, and starts nothing, when an argument is not a
  string.
\<close>

definition subprocess_run :: "world \<Rightarrow> json list \<Rightarrow> gw \<Rightarrow> proc_result \<times> gw" where
  "subprocess_run w cmd s =
     (case strs_of cmd of
        None \<Rightarrow> (Raises TypeError, s)
      | Some argv \<Rightarrow> (git w argv, s\<lparr>invoked := invoked s @ [argv]\<rparr>))"

text \<open>
  With \<^verbatim>\<open>text=True\<close> the captured bytes of both streams are decoded inside
  \<^verbatim>\<open>subprocess.run\<close>, after the tool has exited and before the return code is looked
  at: bytes that are not text raise \<^verbatim>\<open>UnicodeDecodeError\<close>, whatever the return code.
  In the decoded text every \<^verbatim>\<open>CR LF\<close> and every other \<^verbatim>\<open>CR\<close> becomes \<^verbatim>\<open>LF\<close>.
\<close>

fun translate_newlines :: "string \<Rightarrow> string" where
  "translate_newlines [] = []"
| "translate_newlines [c] = [if c = CHR 0x0D then CHR 0x0A else c]"
| "translate_newlines (c # d # cs) =
     (if c = CHR 0x0D \<and> d = CHR 0x0A then CHR 0x0A # translate_newlines cs
      else if c = CHR 0x0D then CHR 0x0A # translate_newlines (d # cs)
      else c # translate_newlines (d # cs))"

definition text_of :: "world \<Rightarrow> string \<Rightarrow> string option" where
  "text_of w bytes = map_option translate_newlines (decode w bytes)"

definition captured_text :: "world \<Rightarrow> string \<Rightarrow> string \<Rightarrow> (string \<times> string) option" where
  "captured_text w sout serr =
     (case text_of w sout of
        None \<Rightarrow> None
      | Some tout \<Rightarrow>
          (case text_of w serr of
             None \<Rightarrow> None
           | Some terr \<Rightarrow> Some (tout, terr)))"

text \<open>
  The handler of \<^verbatim>\<open>CalledProcessError\<close> in \<^verbatim>\<open>run_git_command\<close>: the command is
  printed, and the standard error the exception carries, when it carries one that is
  not empty.
\<close>

definition report_failure :: "json list \<Rightarrow> piece option \<Rightarrow> gw \<Rightarrow> gw" where
  "report_failure cmd stderr s =
     (let s1 = emit (PrintError [Lit ''Git command failed: '',
                                 Lit (join '' '' (case strs_of cmd of None \<Rightarrow> [] | Some argv \<Rightarrow> argv))]) s
      in case stderr of
           None \<Rightarrow> s1
         | Some details \<Rightarrow> emit (Print [Lit ''Details: '', details]) s1)"

text \<open>
  \<^verbatim>\<open>run_git_command(cmd, capture_output, show_output)\<close>. Only \<^verbatim>\<open>CalledProcessError\<close> is
  caught. With \<^verbatim>\<open>capture_output=True\<close> the call is made with \<^verbatim>\<open>text=True\<close> and both
  streams are captured as text. Otherwise nothing is decoded: with
  \<^verbatim>\<open>show_output=False\<close> the streams are captured as bytes, and with
  \<^verbatim>\<open>show_output=True\<close> they are not captured and the exception carries no standard
  error.
\<close>

definition run_git_command :: "world \<Rightarrow> json list \<Rightarrow> bool \<Rightarrow> bool \<Rightarrow> json action" where
  "run_git_command w cmd capture_output show_output s =
     (case subprocess_run w cmd s of
        (Raises e, s1) \<Rightarrow> (Inl e, s1)
      | (Exited rc sout serr, s1) \<Rightarrow>
          if capture_output then
            (case captured_text w sout serr of
               None \<Rightarrow> (Inl UnicodeDecodeError, s1)
             | Some (tout, terr) \<Rightarrow>
                 if rc = 0 then (Inr (JStr (strip tout)), s1)
                 else (Inr (JBool False),
                       report_failure cmd (if terr \<noteq> [] then Some (Lit terr) else None) s1))
          else if rc = 0 then (Inr (JBool True), s1)
          else (Inr (JBool False),
                report_failure cmd
                  (if \<not> show_output \<and> serr \<noteq> [] then Some (Bytes serr) else None) s1))"

text \<open>\<^verbatim>\<open>get_remotes\<close>: the lines of \<^verbatim>\<open>git remote\<close>.\<close>

definition get_remotes :: "world \<Rightarrow> string list action" where
  "get_remotes w =
     andthen (run_git_command w [JStr ''git'', JStr ''remote''] True True)
       (\<lambda>remotes_output.
          ret (case remotes_output of
                 JStr t \<Rightarrow> if t \<noteq> [] then split_on (CHR 0x0A) t else []
               | _ \<Rightarrow> []))"

section \<open>Pushing to several remotes\<close>

text \<open>
  Python names that begin with an underscore lose it here: \<open>execute_push\<close> is
  \<^verbatim>\<open>_execute_push\<close>, and so on. The push methods return nothing in Python; the model lets
  them return the three arguments they pass to \<^verbatim>\<open>_print_push_summary\<close>, so that theorems
  can speak of the summary.
\<close>

record summary =
  succeeded :: int
  total :: int
  failed :: "string list"

definition tick :: string where
  "tick = [CHR 0xE2, CHR 0x9C, CHR 0x93, CHR '' '']"

definition cross :: string where
  "cross = [CHR 0xE2, CHR 0x9C, CHR 0x97, CHR '' '']"

definition execute_push :: "world \<Rightarrow> string \<Rightarrow> json \<Rightarrow> bool \<Rightarrow> json action" where
  "execute_push w remote branch show_output =
     run_git_command w [JStr ''git'', JStr ''push'', JStr remote, branch] False show_output"

definition print_push_summary :: "int \<Rightarrow> int \<Rightarrow> string list \<Rightarrow> summary action" where
  "print_push_summary success tot failed_remotes s =
     (let s1 = emit (Print [Lit (CHR 0x0A # ''Summary: ''), Val (JInt success), Lit ''/'',
                            Val (JInt tot), Lit '' remotes successful'']) s;
          s2 = (if failed_remotes \<noteq> [] then
                  emit (Print [Lit ''Failed remotes: '', Lit (join '', '' failed_remotes)]) s1
                else s1)
      in (Inr \<lparr>succeeded = success, total = tot, failed = failed_remotes\<rparr>, s2))"

subsection \<open>Sequential\<close>

text \<open>
  The \<^verbatim>\<open>for\<close> loop of \<^verbatim>\<open>_push_sequential\<close>, with its two local variables. There is no
  \<^verbatim>\<open>try\<close> around the call, so an exception of a push ends the loop and the method.
\<close>

fun push_sequential_loop ::
  "world \<Rightarrow> json \<Rightarrow> string list \<Rightarrow> int \<Rightarrow> string list \<Rightarrow> (int \<times> string list) action" where
  "push_sequential_loop w branch [] success_count failed_remotes s =
     (Inr (success_count, failed_remotes), s)"
| "push_sequential_loop w branch (remote # rest) success_count failed_remotes s =
     (case execute_push w remote branch False
             (emit (PrintWorking [Lit ''Pushing to '', Lit remote, Lit ''...'']) s) of
        (Inl e, s1) \<Rightarrow> (Inl e, s1)
      | (Inr ok, s1) \<Rightarrow>
          if truthy ok then
            push_sequential_loop w branch rest (success_count + 1) failed_remotes
              (emit (PrintSuccess [Lit tick, Lit ''Pushed to '', Lit remote]) s1)
          else
            push_sequential_loop w branch rest success_count (failed_remotes @ [remote])
              (emit (PrintError [Lit cross, Lit ''Failed to push to '', Lit remote]) s1))"

definition push_sequential :: "world \<Rightarrow> string list \<Rightarrow> json \<Rightarrow> summary action" where
  "push_sequential w remotes branch =
     andthen (push_sequential_loop w branch remotes 0 [])
       (\<lambda>(success_count, failed_remotes).
          print_push_summary success_count (int (length remotes)) failed_remotes)"

subsection \<open>Parallel\<close>

text \<open>
  \<^verbatim>\<open>as_completed\<close> hands the futures to the main thread in an order the program does not
  control: it starts with the futures that are already done, taken from a set, and goes
  on with the others as they finish. The model takes the order from a list of numbers:
  each number picks one of the futures not yet handed over, counting from the first
  submitted and wrapping around; when the list is used up the others follow in the order
  of submission. Every order of the futures is the result of some list
  (\<open>as_completed_any_order\<close>).
\<close>

fun as_completed :: "nat list \<Rightarrow> 'a list \<Rightarrow> 'a list" where
  "as_completed ks [] = []"
| "as_completed [] (f # fs) = f # fs"
| "as_completed (k # ks) (f # fs) =
     (let i = k mod length (f # fs)
      in (f # fs) ! i # as_completed ks (take i (f # fs) @ drop (Suc i) (f # fs)))"

text \<open>
  The worker threads each run \<^verbatim>\<open>_execute_push\<close> once. What they print and the processes
  they start are recorded in the order of submission, before the loop of the main thread:
  the interleaving in which every push is over before \<^verbatim>\<open>as_completed\<close> is called. Each
  future keeps the value or the exception of its call.
\<close>

fun run_workers :: "world \<Rightarrow> json \<Rightarrow> string list \<Rightarrow> gw \<Rightarrow> (exn + json) list \<times> gw" where
  "run_workers w branch [] s = ([], s)"
| "run_workers w branch (remote # rest) s =
     (case execute_push w remote branch False s of
        (r, s1) \<Rightarrow> (case run_workers w branch rest s1 of (rs, s2) \<Rightarrow> (r # rs, s2)))"

text \<open>
  The loop over \<^verbatim>\<open>as_completed(future_to_remote)\<close>: \<^verbatim>\<open>future.result()\<close> returns the
  worker's value or raises its exception again, which \<^verbatim>\<open>except Exception\<close> catches.
\<close>

fun collect ::
  "(string \<times> (exn + json)) list \<Rightarrow> int \<Rightarrow> string list \<Rightarrow> gw \<Rightarrow> (int \<times> string list) \<times> gw" where
  "collect [] success_count failed_remotes s = ((success_count, failed_remotes), s)"
| "collect ((remote, Inr ok) # futures) success_count failed_remotes s =
     (if truthy ok then
        collect futures (success_count + 1) failed_remotes
          (emit (PrintSuccess [Lit tick, Lit ''Pushed to '', Lit remote]) s)
      else
        collect futures success_count (failed_remotes @ [remote])
          (emit (PrintError [Lit cross, Lit ''Failed to push to '', Lit remote]) s))"
| "collect ((remote, Inl e) # futures) success_count failed_remotes s =
     collect futures success_count (failed_remotes @ [remote])
       (emit (PrintError [Lit cross, Lit ''Error pushing to '', Lit remote, Lit '': '', Exc e]) s)"

text \<open>
  \<^verbatim>\<open>ThreadPoolExecutor(max_workers=0)\<close> raises \<^verbatim>\<open>ValueError\<close>, which is what an empty list
  of remotes leads to. The bound of five workers limits how many pushes run at once, not
  the order in which finished futures can be handed over.
\<close>

definition parallel_notice :: "nat \<Rightarrow> event" where
  "parallel_notice n =
     PrintInfo [Lit ''Pushing to '', Val (JInt (int n)), Lit '' remotes in parallel...'']"

definition push_parallel :: "world \<Rightarrow> string list \<Rightarrow> json \<Rightarrow> summary action" where
  "push_parallel w remotes branch s =
     (let s0 = emit (parallel_notice (length remotes)) s
      in if min (length remotes) 5 = 0 then (Inl ValueError, s0)
         else
           (case run_workers w branch remotes s0 of
              (results, s1) \<Rightarrow>
                (case collect (as_completed (schedule w) (zip remotes results)) 0 [] s1 of
                   ((success_count, failed_remotes), s2) \<Rightarrow>
                     print_push_summary success_count (int (length remotes)) failed_remotes s2)))"

subsection \<open>Choosing the mode\<close>

text \<open>
  \<^verbatim>\<open>_push_to_remotes(remotes, branch, parallel)\<close>. The argument \<^verbatim>\<open>parallel\<close> is only
  tested for its truth value, which is what the model passes, under the name the callers
  give it.
\<close>

definition push_to_remotes :: "world \<Rightarrow> string list \<Rightarrow> json \<Rightarrow> bool \<Rightarrow> summary action" where
  "push_to_remotes w remotes branch use_parallel s =
     (if use_parallel \<and> truthy (dict_get_default (config s) (JStr ''parallel_push'') (JBool True))
         \<and> length remotes > 1
      then push_parallel w remotes branch s
      else push_sequential w remotes branch s)"

section \<open>Branch names\<close>

definition invalid_chars :: "string list" where
  "invalid_chars =
     ['' '', ''~'', ''^'', '':'', ''?'', ''*'', ''['', [CHR 0x5C], ''..'']"

definition validate_branch_name :: "string \<Rightarrow> bool" where
  "validate_branch_name name =
     (if name = [] then False
      else if list_ex (\<lambda>char. py_in char name) invalid_chars then False
      else if startswith name ''-'' \<or> endswith name ''.'' \<or> endswith name ''.lock'' then False
      else True)"

section \<open>The history\<close>

text \<open>
  The start of the slice \<^verbatim>\<open>self.history[-max_history:]\<close>. Unary minus is defined on
  numbers only, and a slice takes integers only (\<^verbatim>\<open>True\<close> and \<^verbatim>\<open>False\<close> count as 1 and
  0); everything else is a \<^verbatim>\<open>TypeError\<close>, which \<^verbatim>\<open>except IOError\<close> does not catch.
\<close>

fun slice_start :: "json \<Rightarrow> exn + int" where
  "slice_start (JInt n) = Inr (- n)"
| "slice_start (JBool b) = Inr (- (if b then 1 else 0))"
| "slice_start _ = Inl TypeError"

text \<open>
  \<^verbatim>\<open>save_history\<close>: the list is cut first, then written. When the file cannot be opened
  for writing the \<^verbatim>\<open>IOError\<close> is swallowed and the file keeps what it had.
\<close>

definition save_history :: "world \<Rightarrow> unit action" where
  "save_history w s =
     (case slice_start (dict_get_default (config s) (JStr ''max_history'') (JInt 20)) of
        Inl e \<Rightarrow> (Inl e, s)
      | Inr i \<Rightarrow>
          (let s1 = s\<lparr>history := slice_from i (history s)\<rparr>
           in (Inr (), if history_writable w then s1\<lparr>history_file := Some (history s1)\<rparr>
                       else s1)))"

definition add_to_history :: "world \<Rightarrow> fstring \<Rightarrow> fstring \<Rightarrow> unit action" where
  "add_to_history w cmd descr s =
     save_history w
       (s\<lparr>history := history s @ [\<lparr>command = cmd, description = descr, timestamp = clock w\<rparr>]\<rparr>)"

text \<open>Additions one after the other, as \<^verbatim>\<open>test_history_limit\<close> makes them.\<close>

fun add_all :: "world \<Rightarrow> (fstring \<times> fstring) list \<Rightarrow> unit action" where
  "add_all w [] s = (Inr (), s)"
| "add_all w ((cmd, descr) # rest) s =
     (case add_to_history w cmd descr s of
        (Inl e, s1) \<Rightarrow> (Inl e, s1)
      | (Inr u, s1) \<Rightarrow> add_all w rest s1)"

section \<open>Prompts\<close>

text \<open>\<^verbatim>\<open>self.config[key]\<close> raises \<^verbatim>\<open>KeyError\<close> for a key the dict does not have.\<close>

definition config_item :: "string \<Rightarrow> json action" where
  "config_item key s =
     (case dict_get (config s) (JStr key) of
        None \<Rightarrow> (Inl KeyError, s)
      | Some v \<Rightarrow> (Inr v, s))"

text \<open>
  \<^verbatim>\<open>get_input(prompt, default)\<close>; without a default the argument is \<^verbatim>\<open>None\<close>. The answer
  is the text typed, or the default when nothing was typed, whatever the default is.
\<close>

definition get_input :: "string \<Rightarrow> json \<Rightarrow> json action" where
  "get_input prompt dflt =
     (if truthy dflt then
        andthen (input [Lit prompt, Lit '' ['', Val dflt, Lit '']: ''])
          (\<lambda>line. let user_input = strip line
                   in ret (if user_input \<noteq> [] then JStr user_input else dflt))
      else
        andthen (input [Lit prompt, Lit '': '']) (\<lambda>line. ret (JStr (strip line))))"

text \<open>
  \<^verbatim>\<open>get_multiple_choice\<close>. The list comprehension turns the typed fields into numbers,
  the \<^verbatim>\<open>for\<close> loop looks the numbers up, and the \<^verbatim>\<open>while\<close> loop asks again after a
  \<^verbatim>\<open>ValueError\<close>. The \<^verbatim>\<open>while\<close> loop reads one line each time round, so it is written
  as a recursion over the lines still to be typed; it carries what has been printed.
\<close>

fun parse_ints :: "string list \<Rightarrow> int list option" where
  "parse_ints [] = Some []"
| "parse_ints (x # xs) =
     (case py_int (strip x) of
        None \<Rightarrow> None
      | Some n \<Rightarrow> map_option ((#) n) (parse_ints xs))"

fun select_loop :: "string list \<Rightarrow> int list \<Rightarrow> string list \<Rightarrow> int + string list" where
  "select_loop choices [] selected = Inr selected"
| "select_loop choices (num # nums) selected =
     (if 1 \<le> num \<and> num \<le> int (length choices) then
        select_loop choices nums (selected @ [choices ! nat (num - 1)])
      else Inl num)"

fun choice_loop ::
  "string list \<Rightarrow> string list \<Rightarrow> event list \<Rightarrow> (exn + string list) \<times> string list \<times> event list" where
  "choice_loop choices [] shown =
     (Inl EOFError, [], shown @ [Input [Lit (CHR 0x0A # ''Enter choice numbers: '')]])"
| "choice_loop choices (line # lines) shown =
     (let shown1 = shown @ [Input [Lit (CHR 0x0A # ''Enter choice numbers: '')]];
          choice_input = strip line
      in if choice_input = [] then (Inr [], lines, shown1)
         else
           (case parse_ints (split_on (CHR '','') choice_input) of
              None \<Rightarrow>
                choice_loop choices lines
                  (shown1 @ [Print [Lit ''Please enter valid numbers separated by commas.'']])
            | Some choice_nums \<Rightarrow>
                (case select_loop choices choice_nums [] of
                   Inl num \<Rightarrow>
                     (Inr [], lines, shown1 @ [Print [Lit ''Invalid choice: '', Val (JInt num)]])
                 | Inr selected \<Rightarrow> (Inr selected, lines, shown1))))"

definition menu_lines :: "string list \<Rightarrow> event list" where
  "menu_lines choices =
     map (\<lambda>(i, choice). Print [Lit ''  '', Val (JInt (int i)), Lit ''. '', Lit choice])
       (zip [1 ..< Suc (length choices)] choices)"

definition get_multiple_choice :: "string \<Rightarrow> string list \<Rightarrow> string list action" where
  "get_multiple_choice prompt choices s =
     (let shown = out s @ [Print [Lit (CHR 0x0A # prompt)],
                           Print [Lit ''(Enter comma-separated numbers, e.g., 1,3,4)'']]
                        @ menu_lines choices
      in case choice_loop choices (stdin s) shown of
           (r, lines, shown') \<Rightarrow> (r, s\<lparr>stdin := lines, out := shown'\<rparr>))"

section \<open>Two interactive flows\<close>

definition press_enter :: "unit action" where
  "press_enter = andthen (input [Lit ''Press Enter to continue...'']) (\<lambda>_. ret ())"

text \<open>\<^verbatim>\<open>interactive_push_multiple\<close>.\<close>

definition interactive_push_multiple :: "world \<Rightarrow> unit action" where
  "interactive_push_multiple w =
     andthen (get_remotes w) (\<lambda>remotes.
       if remotes = [] then ret ()
       else if length remotes = 1 then
         andthen (say (PrintInfo
                    [Lit ''Only one remote available. Use single remote push instead.'']))
           (\<lambda>_. press_enter)
       else
         andthen (run_git_command w [JStr ''git'', JStr ''branch'', JStr ''--show-current'']
                    True True) (\<lambda>current_branch.
         andthen (if truthy current_branch then ret current_branch
                  else config_item ''default_branch'') (\<lambda>dflt.
         andthen (get_input ''Branch to push'' dflt) (\<lambda>branch.
         andthen (get_multiple_choice ''Select remotes to push to:'' remotes)
           (\<lambda>selected_remotes.
             if selected_remotes = [] then
               andthen (say (PrintInfo [Lit ''No remotes selected.''])) (\<lambda>_. press_enter)
             else
               andthen (\<lambda>s. ret (py_and (dict_get_default (config s) (JStr ''parallel_push'')
                                            (JBool True))
                                         (JBool (length selected_remotes > 1))) s)
                 (\<lambda>use_parallel.
               andthen (if truthy use_parallel then
                          say (PrintInfo [Lit ''Using parallel push for faster operation''])
                        else ret ()) (\<lambda>_.
               andthen (push_to_remotes w selected_remotes branch (truthy use_parallel)) (\<lambda>_.
               andthen (add_to_history w [Lit ''push'']
                          [Lit ''Pushed '', Val branch, Lit '' to '',
                           Val (JInt (int (length selected_remotes))), Lit '' remotes''])
                 (\<lambda>_. press_enter)))))))))"

text \<open>
  \<^verbatim>\<open>interactive_create_branch\<close>. Without a default \<^verbatim>\<open>get_input\<close> returns a string; the
  last case is there for the type only.
\<close>

definition interactive_create_branch :: "world \<Rightarrow> unit action" where
  "interactive_create_branch w =
     andthen (get_input ''Enter new branch name'' JNull) (\<lambda>answer.
       case answer of
         JStr branch_name \<Rightarrow>
           if branch_name = [] then ret ()
           else if \<not> validate_branch_name branch_name then
             andthen (say (PrintError
                        [Lit ''Invalid branch name! Avoid spaces and special characters.'']))
               (\<lambda>_. press_enter)
           else
             andthen (say (PrintWorking [Lit ''Creating new branch: '', Lit branch_name])) (\<lambda>_.
             andthen (run_git_command w [JStr ''git'', JStr ''checkout'', JStr ''-b'',
                                         JStr branch_name] False True) (\<lambda>created.
             andthen (if truthy created then
                        andthen (say (PrintSuccess [Lit ''Created and switched to branch: '',
                                                    Lit branch_name]))
                          (\<lambda>_. add_to_history w [Lit ''branch'']
                                  [Lit ''Created branch '', Lit branch_name])
                      else ret ())
               (\<lambda>_. press_enter)))
       | _ \<Rightarrow> raise TypeError)"

section \<open>Vocabulary of the theorems\<close>

text \<open>
  What a push of \<open>branch\<close> to \<open>remote\<close> comes to in a world: \<open>push_result\<close> is the value
  \<^verbatim>\<open>_execute_push\<close> returns or the exception it raises (lemma \<open>execute_push_result\<close>
  shows that it is).
\<close>

definition push_argv :: "string \<Rightarrow> string \<Rightarrow> string list" where
  "push_argv remote b = [''git'', ''push'', remote, b]"

definition push_result :: "world \<Rightarrow> json \<Rightarrow> string \<Rightarrow> exn + json" where
  "push_result w branch remote =
     (case branch of
        JStr b \<Rightarrow>
          (case git w (push_argv remote b) of
             Raises e \<Rightarrow> Inl e
           | Exited rc sout serr \<Rightarrow> Inr (JBool (rc = 0)))
      | _ \<Rightarrow> Inl TypeError)"

definition push_ok :: "world \<Rightarrow> json \<Rightarrow> string \<Rightarrow> bool" where
  "push_ok w branch remote \<longleftrightarrow> push_result w branch remote = Inr (JBool True)"

definition push_raises :: "world \<Rightarrow> json \<Rightarrow> string \<Rightarrow> bool" where
  "push_raises w branch remote \<longleftrightarrow> (case push_result w branch remote of Inl e \<Rightarrow> True | Inr v \<Rightarrow> False)"

text \<open>What a call has printed, and the processes it has asked for, since state \<open>s\<close>.\<close>

definition printed_since :: "gw \<Rightarrow> gw \<Rightarrow> event list" where
  "printed_since s s' = drop (length (out s)) (out s')"

definition invoked_since :: "gw \<Rightarrow> gw \<Rightarrow> string list list" where
  "invoked_since s s' = drop (length (invoked s)) (invoked s')"

text \<open>The last \<open>n\<close> elements of a list, all of them when there are fewer.\<close>

definition last_n :: "nat \<Rightarrow> 'a list \<Rightarrow> 'a list" where
  "last_n n xs = drop (length xs - n) xs"

section \<open>Concrete runs\<close>

text \<open>
  The ASCII codec, the encoding of the C locale: bytes from \<open>0x80\<close> on are not text.
\<close>

definition ascii_codec :: "string \<Rightarrow> string option" where
  "ascii_codec bytes = (if list_all (\<lambda>c. of_char c < (128::nat)) bytes then Some bytes else None)"

text \<open>A tool that answers from a table and succeeds silently on everything else.\<close>

definition answers :: "(string list \<times> proc_result) list \<Rightarrow> string list \<Rightarrow> proc_result" where
  "answers tbl argv = (case map_of tbl argv of None \<Rightarrow> Exited 0 [] [] | Some r \<Rightarrow> r)"

definition fresh :: gw where
  "fresh = \<lparr>config = default_config, history = [], history_file = None, stdin = [],
            out = [], invoked = []\<rparr>"

text \<open>
  The scenario of the specification: \<^verbatim>\<open>origin\<close> and \<^verbatim>\<open>mirror\<close> accept the push,
  \<^verbatim>\<open>upstream\<close> refuses it with \<^verbatim>\<open>auth error\<close>.
\<close>

definition scenario :: world where
  "scenario =
     \<lparr>git = answers [(push_argv ''upstream'' ''main'', Exited 1 [] ''auth error'')],
      decode = ascii_codec, schedule = [2, 0], clock = 0, history_writable = True\<rparr>"

text \<open>Both remotes refuse the push, and the second push is handed over first.\<close>

definition both_refuse :: world where
  "both_refuse =
     \<lparr>git = answers [(push_argv ''origin'' ''main'', Exited 1 [] ''denied''),
                      (push_argv ''upstream'' ''main'', Exited 1 [] ''denied'')],
      decode = ascii_codec, schedule = [1], clock = 0, history_writable = True\<rparr>"

text \<open>The tool cannot be started for the push to \<^verbatim>\<open>origin\<close>.\<close>

definition origin_unstartable :: world where
  "origin_unstartable =
     \<lparr>git = answers [(push_argv ''origin'' ''main'', Raises OSError)],
      decode = ascii_codec, schedule = [], clock = 0, history_writable = True\<rparr>"

text \<open>A repository with the remotes \<^verbatim>\<open>origin\<close> and \<^verbatim>\<open>upstream\<close>, on branch \<^verbatim>\<open>main\<close>.\<close>

definition two_remotes :: world where
  "two_remotes =
     \<lparr>git = answers
        [([''git'', ''remote''], Exited 0 (''origin'' @ [CHR 0x0A] @ ''upstream'' @ [CHR 0x0A]) []),
         ([''git'', ''branch'', ''--show-current''], Exited 0 (''main'' @ [CHR 0x0A]) [])],
      decode = ascii_codec, schedule = [], clock = 0, history_writable = True\<rparr>"


text \<open>The additions of \<^verbatim>\<open>test_history_limit\<close>: \<^verbatim>\<open>command0\<close> to \<^verbatim>\<open>command9\<close>.\<close>

definition numbered :: "int \<Rightarrow> fstring \<times> fstring" where
  "numbered i = ([Lit ''command'', Val (JInt i)], [Lit ''Description '', Val (JInt i)])"

definition numbered_entry :: "int \<Rightarrow> entry" where
  "numbered_entry i =
     \<lparr>command = [Lit ''command'', Val (JInt i)],
      description = [Lit ''Description '', Val (JInt i)], timestamp = 0\<rparr>"

definition with_max_history :: "json \<Rightarrow> gw" where
  "with_max_history v = fresh\<lparr>config := dict_set default_config (JStr ''max_history'') v\<rparr>"

text \<open>
  Three remotes of which \<^verbatim>\<open>upstream\<close> and \<^verbatim>\<open>mirror\<close> refuse the push; the push to
  \<^verbatim>\<open>mirror\<close> is handed over first.
\<close>

definition mirror_first :: world where
  "mirror_first =
     \<lparr>git = answers [(push_argv ''upstream'' ''main'', Exited 1 [] ''denied''),
                      (push_argv ''mirror'' ''main'', Exited 1 [] ''denied'')],
      decode = ascii_codec, schedule = [2], clock = 0, history_writable = True\<rparr>"

text \<open>The settings after \<^verbatim>\<open>Toggle Parallel Push\<close> has switched parallel pushes off.\<close>

definition sequential_only :: gw where
  "sequential_only = fresh\<lparr>config := dict_set default_config (JStr ''parallel_push'') (JBool False)\<rparr>"




section \<open>Properties of the push dispatch\<close>

subsection \<open>The hand-over order\<close>

lemma mset_as_completed: "mset (as_completed ks fs) = mset fs"
proof (induction ks fs rule: as_completed.induct)
  case (3 k ks f fs)
  let ?xs = "f # fs"
  let ?i = "k mod length ?xs"
  have i: "?i < length ?xs" by simp
  have "mset ?xs = mset (take ?i ?xs @ ?xs ! ?i # drop (Suc ?i) ?xs)"
    using id_take_nth_drop [OF i] by simp
  then have "mset ?xs = {#?xs ! ?i#} + mset (take ?i ?xs @ drop (Suc ?i) ?xs)"
    by simp
  with 3 show ?case by (simp add: Let_def)
qed simp_all

lemma length_as_completed: "length (as_completed ks fs) = length fs"
  using mset_as_completed [of ks fs] by (metis size_mset)

lemma set_as_completed: "set (as_completed ks fs) = set fs"
  using mset_as_completed [of ks fs] by (metis set_mset_mset)

lemma as_completed_step:
  "fs \<noteq> [] \<Longrightarrow>
   as_completed (k # ks) fs =
     fs ! (k mod length fs)
       # as_completed ks (take (k mod length fs) fs @ drop (Suc (k mod length fs)) fs)"
  by (cases fs) (simp_all add: Let_def del: nth_Cons_Suc take_Suc_Cons drop_Suc_Cons)

lemma as_completed_map: "as_completed ks (map g fs) = map g (as_completed ks fs)"
proof (induction ks arbitrary: fs)
  case Nil
  show ?case by (cases fs) simp_all
next
  case (Cons k ks)
  show ?case
  proof (cases "fs = []")
    case True
    then show ?thesis by simp
  next
    case False
    then have i: "k mod length fs < length fs" by simp
    have "as_completed (k # ks) (map g fs) =
            map g fs ! (k mod length fs)
              # as_completed ks (map g (take (k mod length fs) fs @ drop (Suc (k mod length fs)) fs))"
      using False by (simp add: as_completed_step take_map drop_map)
    also have "\<dots> = map g (as_completed (k # ks) fs)"
      using False i by (simp add: as_completed_step Cons.IH [symmetric] del: map_append)
    finally show ?thesis .
  qed
qed

lemma as_completed_Nil_schedule: "as_completed [] fs = fs"
  by (cases fs) simp_all


lemma as_completed_any_order:
  "mset ys = mset fs \<Longrightarrow> \<exists>ks. as_completed ks fs = ys"
proof (induction ys arbitrary: fs)
  case Nil
  then show ?case by simp
next
  case (Cons y ys)
  then have "y \<in> set fs" by (metis list.set_intros(1) set_mset_mset)
  then obtain i where i: "i < length fs" and y: "fs ! i = y"
    by (auto simp: in_set_conv_nth)
  let ?rest = "take i fs @ drop (Suc i) fs"
  have "mset fs = {#y#} + mset ?rest"
    using id_take_nth_drop [OF i] y by (metis add_mset_add_single mset.simps(2) mset_append union_mset_add_mset_right union_commute)
  with Cons.prems have "mset ys = mset ?rest" by simp
  then obtain ks where ks: "as_completed ks ?rest = ys"
    using Cons.IH by blast
  have "fs \<noteq> []" using i by auto
  then have "as_completed (i # ks) fs = y # ys"
    using i y ks by (simp add: as_completed_step)
  then show ?case by blast
qed

subsection \<open>One push\<close>

lemma report_failure_keeps [simp]:
  "invoked (report_failure cmd stderr s) = invoked s"
  "config (report_failure cmd stderr s) = config s"
  "history (report_failure cmd stderr s) = history s"
  "history_file (report_failure cmd stderr s) = history_file s"
  "stdin (report_failure cmd stderr s) = stdin s"
  by (simp_all add: report_failure_def Let_def emit_def split: option.splits)

lemma report_failure_out:
  "out (report_failure cmd stderr s) =
     out s @ PrintError [Lit ''Git command failed: '',
                         Lit (join '' '' (case strs_of cmd of None \<Rightarrow> [] | Some argv \<Rightarrow> argv))]
           # (case stderr of None \<Rightarrow> [] | Some details \<Rightarrow> [Print [Lit ''Details: '', details]])"
  by (simp add: report_failure_def Let_def emit_def split: option.splits)

lemma strs_of_push:
  "strs_of [JStr a, JStr b, JStr c, branch] =
     (case branch of JStr x \<Rightarrow> Some [a, b, c, x] | _ \<Rightarrow> None)"
  by (cases branch) simp_all

lemma execute_push_result [simp]:
  "fst (execute_push w remote branch show_output s) = push_result w branch remote"
  by (cases branch)
     (auto simp: execute_push_def run_git_command_def subprocess_run_def push_result_def
        push_argv_def Let_def split: proc_result.splits)

lemma execute_push_invoked [simp]:
  "invoked (snd (execute_push w remote branch show_output s)) =
     invoked s @ (case branch of JStr b \<Rightarrow> [push_argv remote b] | _ \<Rightarrow> [])"
  by (cases branch)
     (auto simp: execute_push_def run_git_command_def subprocess_run_def emit_def
        push_argv_def Let_def split: proc_result.splits)

lemma execute_push_keeps [simp]:
  "config (snd (execute_push w remote branch show_output s)) = config s"
  "history (snd (execute_push w remote branch show_output s)) = history s"
  "history_file (snd (execute_push w remote branch show_output s)) = history_file s"
  "stdin (snd (execute_push w remote branch show_output s)) = stdin s"
  by (cases branch;
      auto simp: execute_push_def run_git_command_def subprocess_run_def emit_def
        Let_def split: proc_result.splits)+

lemma execute_push_out:
  "\<exists>evs. out (snd (execute_push w remote branch show_output s)) = out s @ evs
         \<and> (\<forall>t. PrintInfo t \<notin> set evs)"
  by (cases branch)
     (auto simp: execute_push_def run_git_command_def subprocess_run_def emit_def
        report_failure_out Let_def split: proc_result.splits)


lemma push_result_cases:
  obtains (ok) "push_result w branch remote = Inr (JBool True)"
        | (refused) "push_result w branch remote = Inr (JBool False)"
        | (raised) e where "push_result w branch remote = Inl e"
  by (cases branch; cases "git w (push_argv remote (case branch of JStr b \<Rightarrow> b | _ \<Rightarrow> []))")
     (auto simp: push_result_def)

subsection \<open>The sequential loop\<close>

lemma push_sequential_loop_Cons:
  "push_sequential_loop w branch (remote # rest) c f s =
     (let s1 = snd (execute_push w remote branch False
                     (emit (PrintWorking [Lit ''Pushing to '', Lit remote, Lit ''...'']) s))
      in case push_result w branch remote of
           Inl e \<Rightarrow> (Inl e, s1)
         | Inr ok \<Rightarrow>
             if truthy ok then
               push_sequential_loop w branch rest (c + 1) f
                 (emit (PrintSuccess [Lit tick, Lit ''Pushed to '', Lit remote]) s1)
             else
               push_sequential_loop w branch rest c (f @ [remote])
                 (emit (PrintError [Lit cross, Lit ''Failed to push to '', Lit remote]) s1))"
proof -
  obtain r s1 where e: "execute_push w remote branch False
      (emit (PrintWorking [Lit ''Pushing to '', Lit remote, Lit ''...'']) s) = (r, s1)"
    by (cases "execute_push w remote branch False
      (emit (PrintWorking [Lit ''Pushing to '', Lit remote, Lit ''...'']) s)")
  have "r = push_result w branch remote"
    using execute_push_result [of w remote branch False
      "emit (PrintWorking [Lit ''Pushing to '', Lit remote, Lit ''...'']) s"] e by simp
  with e show ?thesis by (simp add: Let_def split: sum.splits)
qed

lemma push_sequential_loop_result:
  "fst (push_sequential_loop w branch remotes c f s) = Inr (c', f') \<Longrightarrow>
     c' = c + int (length (filter (push_ok w branch) remotes))
     \<and> f' = f @ filter (\<lambda>r. \<not> push_ok w branch r) remotes
     \<and> (\<forall>r \<in> set remotes. \<not> push_raises w branch r)"
proof (induction remotes arbitrary: c f s)
  case Nil
  then show ?case by simp
next
  case (Cons remote rest)
  let ?s1 = "snd (execute_push w remote branch False
                   (emit (PrintWorking [Lit ''Pushing to '', Lit remote, Lit ''...'']) s))"
  show ?case
  proof (cases rule: push_result_cases [of w branch remote])
    case ok
    with Cons.prems have "fst (push_sequential_loop w branch rest (c + 1) f
        (emit (PrintSuccess [Lit tick, Lit ''Pushed to '', Lit remote]) ?s1)) = Inr (c', f')"
      by (simp add: push_sequential_loop_Cons Let_def del: push_sequential_loop.simps)
    from Cons.IH [OF this] ok show ?thesis
      by (simp add: push_ok_def push_raises_def)
  next
    case refused
    with Cons.prems have "fst (push_sequential_loop w branch rest c (f @ [remote])
        (emit (PrintError [Lit cross, Lit ''Failed to push to '', Lit remote]) ?s1)) = Inr (c', f')"
      by (simp add: push_sequential_loop_Cons Let_def del: push_sequential_loop.simps)
    from Cons.IH [OF this] refused show ?thesis
      by (simp add: push_ok_def push_raises_def)
  next
    case (raised e)
    with Cons.prems show ?thesis
      by (simp add: push_sequential_loop_Cons Let_def del: push_sequential_loop.simps)
  qed
qed

lemma push_sequential_loop_returns:
  "\<forall>r \<in> set remotes. \<not> push_raises w branch r \<Longrightarrow>
     \<exists>c' f'. fst (push_sequential_loop w branch remotes c f s) = Inr (c', f')"
proof (induction remotes arbitrary: c f s)
  case Nil
  then show ?case by simp
next
  case (Cons remote rest)
  then have rest: "\<forall>r \<in> set rest. \<not> push_raises w branch r" by simp
  show ?case
  proof (cases rule: push_result_cases [of w branch remote])
    case ok
    then show ?thesis
      using Cons.IH [OF rest]
      by (simp add: push_sequential_loop_Cons Let_def del: push_sequential_loop.simps)
  next
    case refused
    then show ?thesis
      using Cons.IH [OF rest]
      by (simp add: push_sequential_loop_Cons Let_def del: push_sequential_loop.simps)
  next
    case (raised e)
    with Cons.prems show ?thesis by (simp add: push_raises_def)
  qed
qed

lemma push_sequential_loop_invoked:
  "\<forall>r \<in> set remotes. \<not> push_raises w (JStr b) r \<Longrightarrow>
     invoked (snd (push_sequential_loop w (JStr b) remotes c f s)) =
       invoked s @ map (\<lambda>r. push_argv r b) remotes"
proof (induction remotes arbitrary: c f s)
  case Nil
  then show ?case by simp
next
  case (Cons remote rest)
  then have rest: "\<forall>r \<in> set rest. \<not> push_raises w (JStr b) r" by simp
  show ?case
  proof (cases rule: push_result_cases [of w "JStr b" remote])
    case ok
    then show ?thesis
      using Cons.IH [OF rest]
      by (simp add: push_sequential_loop_Cons Let_def emit_def del: push_sequential_loop.simps)
  next
    case refused
    then show ?thesis
      using Cons.IH [OF rest]
      by (simp add: push_sequential_loop_Cons Let_def emit_def del: push_sequential_loop.simps)
  next
    case (raised e)
    with Cons.prems show ?thesis by (simp add: push_raises_def)
  qed
qed

lemma push_sequential_loop_out:
  "\<exists>evs. out (snd (push_sequential_loop w branch remotes c f s)) = out s @ evs
         \<and> (\<forall>t. PrintInfo t \<notin> set evs)"
proof (induction remotes arbitrary: c f s)
  case Nil
  then show ?case by simp
next
  case (Cons remote rest)
  let ?s0 = "emit (PrintWorking [Lit ''Pushing to '', Lit remote, Lit ''...'']) s"
  obtain evs where evs: "out (snd (execute_push w remote branch False ?s0)) = out ?s0 @ evs"
      "\<forall>t. PrintInfo t \<notin> set evs"
    using execute_push_out by blast
  let ?s1 = "snd (execute_push w remote branch False ?s0)"
  show ?case
  proof (cases rule: push_result_cases [of w branch remote])
    case ok
    obtain evs' where "out (snd (push_sequential_loop w branch rest (c + 1) f
          (emit (PrintSuccess [Lit tick, Lit ''Pushed to '', Lit remote]) ?s1))) =
        out (emit (PrintSuccess [Lit tick, Lit ''Pushed to '', Lit remote]) ?s1) @ evs'"
      "\<forall>t. PrintInfo t \<notin> set evs'"
      using Cons.IH by blast
    with ok evs show ?thesis
      by (simp add: push_sequential_loop_Cons Let_def emit_def del: push_sequential_loop.simps)
  next
    case refused
    obtain evs' where "out (snd (push_sequential_loop w branch rest c (f @ [remote])
          (emit (PrintError [Lit cross, Lit ''Failed to push to '', Lit remote]) ?s1))) =
        out (emit (PrintError [Lit cross, Lit ''Failed to push to '', Lit remote]) ?s1) @ evs'"
      "\<forall>t. PrintInfo t \<notin> set evs'"
      using Cons.IH by blast
    with refused evs show ?thesis
      by (simp add: push_sequential_loop_Cons Let_def emit_def del: push_sequential_loop.simps)
  next
    case (raised e)
    with evs show ?thesis
      by (simp add: push_sequential_loop_Cons Let_def emit_def del: push_sequential_loop.simps)
  qed
qed


subsection \<open>The summary\<close>

lemma print_push_summary_result [simp]:
  "fst (print_push_summary c n f s) = Inr \<lparr>succeeded = c, total = n, failed = f\<rparr>"
  by (simp add: print_push_summary_def Let_def)

lemma print_push_summary_keeps [simp]:
  "invoked (snd (print_push_summary c n f s)) = invoked s"
  "config (snd (print_push_summary c n f s)) = config s"
  by (simp_all add: print_push_summary_def Let_def emit_def)

lemma print_push_summary_out:
  "\<exists>evs. out (snd (print_push_summary c n f s)) = out s @ evs
         \<and> (\<forall>t. PrintInfo t \<notin> set evs)"
  by (simp add: print_push_summary_def Let_def emit_def)

subsection \<open>Sequential mode\<close>

lemma push_sequential_unfold:
  "push_sequential w remotes branch s =
     (case push_sequential_loop w branch remotes 0 [] s of
        (Inl e, s1) \<Rightarrow> (Inl e, s1)
      | (Inr (c, f), s1) \<Rightarrow> print_push_summary c (int (length remotes)) f s1)"
  by (simp add: push_sequential_def andthen_def split: prod.splits sum.splits)

lemma push_sequential_summary:
  assumes "fst (push_sequential w remotes branch s) = Inr sm"
  shows "sm = \<lparr>succeeded = int (length (filter (push_ok w branch) remotes)),
               total = int (length remotes),
               failed = filter (\<lambda>r. \<not> push_ok w branch r) remotes\<rparr>"
    and "\<forall>r \<in> set remotes. \<not> push_raises w branch r"
proof -
  obtain x s1 where l: "push_sequential_loop w branch remotes 0 [] s = (x, s1)"
    by (cases "push_sequential_loop w branch remotes 0 [] s")
  with assms obtain c f where x: "x = Inr (c, f)"
    by (cases x) (auto simp: push_sequential_unfold)
  with l have "fst (push_sequential_loop w branch remotes 0 [] s) = Inr (c, f)" by simp
  from push_sequential_loop_result [OF this]
  have c: "c = int (length (filter (push_ok w branch) remotes))"
    and f: "f = filter (\<lambda>r. \<not> push_ok w branch r) remotes"
    and r: "\<forall>r \<in> set remotes. \<not> push_raises w branch r"
    by simp_all
  from assms l x c f
  show "sm = \<lparr>succeeded = int (length (filter (push_ok w branch) remotes)),
               total = int (length remotes),
               failed = filter (\<lambda>r. \<not> push_ok w branch r) remotes\<rparr>"
    by (simp add: push_sequential_unfold)
  from r show "\<forall>r \<in> set remotes. \<not> push_raises w branch r" .
qed

lemma push_sequential_returns:
  assumes "\<forall>r \<in> set remotes. \<not> push_raises w branch r"
  shows "\<exists>sm. fst (push_sequential w remotes branch s) = Inr sm"
proof -
  obtain c f where "fst (push_sequential_loop w branch remotes 0 [] s) = Inr (c, f)"
    using push_sequential_loop_returns [OF assms] by blast
  then show ?thesis
    by (cases "push_sequential_loop w branch remotes 0 [] s")
       (simp add: push_sequential_unfold)
qed

lemma push_sequential_invoked:
  assumes "\<forall>r \<in> set remotes. \<not> push_raises w (JStr b) r"
  shows "invoked (snd (push_sequential w remotes (JStr b) s)) =
           invoked s @ map (\<lambda>r. push_argv r b) remotes"
proof -
  obtain c f where "fst (push_sequential_loop w (JStr b) remotes 0 [] s) = Inr (c, f)"
    using push_sequential_loop_returns [OF assms] by blast
  then show ?thesis
    using push_sequential_loop_invoked [OF assms, of 0 "[]" s]
    by (cases "push_sequential_loop w (JStr b) remotes 0 [] s")
       (simp add: push_sequential_unfold)
qed

lemma push_sequential_out:
  "\<exists>evs. out (snd (push_sequential w remotes branch s)) = out s @ evs
         \<and> (\<forall>t. PrintInfo t \<notin> set evs)"
proof -
  obtain x s1 where l: "push_sequential_loop w branch remotes 0 [] s = (x, s1)"
    by (cases "push_sequential_loop w branch remotes 0 [] s")
  obtain evs where evs: "out s1 = out s @ evs" "\<forall>t. PrintInfo t \<notin> set evs"
    using push_sequential_loop_out [of w branch remotes 0 "[]" s] l by auto
  show ?thesis
  proof (cases x)
    case (Inl e)
    with l evs show ?thesis by (simp add: push_sequential_unfold)
  next
    case (Inr cf)
    obtain c f where cf: "cf = (c, f)" by (cases cf)
    obtain evs' where "out (snd (print_push_summary c (int (length remotes)) f s1)) = out s1 @ evs'"
      "\<forall>t. PrintInfo t \<notin> set evs'"
      using print_push_summary_out by blast
    with l evs Inr cf show ?thesis by (simp add: push_sequential_unfold)
  qed
qed


subsection \<open>Parallel mode\<close>

lemma run_workers_results [simp]:
  "fst (run_workers w branch remotes s) = map (push_result w branch) remotes"
proof (induction remotes arbitrary: s)
  case Nil
  show ?case by simp
next
  case (Cons remote rest)
  have "fst (execute_push w remote branch False s) = push_result w branch remote" by simp
  with Cons show ?case
    by (simp add: split_beta)
qed

lemma run_workers_invoked [simp]:
  "invoked (snd (run_workers w branch remotes s)) =
     invoked s @ (case branch of JStr b \<Rightarrow> map (\<lambda>r. push_argv r b) remotes | _ \<Rightarrow> [])"
proof (induction remotes arbitrary: s)
  case Nil
  show ?case by (cases branch) simp_all
next
  case (Cons remote rest)
  then show ?case by (cases branch) (simp_all add: split_beta)
qed

lemma run_workers_config [simp]:
  "config (snd (run_workers w branch remotes s)) = config s"
  by (induction remotes arbitrary: s) (simp_all add: split_beta)

lemma run_workers_out:
  "\<exists>evs. out (snd (run_workers w branch remotes s)) = out s @ evs
         \<and> (\<forall>t. PrintInfo t \<notin> set evs)"
proof (induction remotes arbitrary: s)
  case Nil
  show ?case by simp
next
  case (Cons remote rest)
  obtain evs where evs: "out (snd (execute_push w remote branch False s)) = out s @ evs"
      "\<forall>t. PrintInfo t \<notin> set evs"
    using execute_push_out by blast
  obtain evs' where "out (snd (run_workers w branch rest (snd (execute_push w remote branch False s)))) =
        out (snd (execute_push w remote branch False s)) @ evs'"
      "\<forall>t. PrintInfo t \<notin> set evs'"
    using Cons by blast
  with evs show ?case by (simp add: split_beta)
qed

lemma zip_results: "zip xs (map g xs) = map (\<lambda>x. (x, g x)) xs"
  by (induction xs) simp_all

lemma collect_result:
  "fst (collect (map (\<lambda>r. (r, push_result w branch r)) xs) c f s) =
     (c + int (length (filter (push_ok w branch) xs)),
      f @ filter (\<lambda>r. \<not> push_ok w branch r) xs)"
proof (induction xs arbitrary: c f s)
  case Nil
  show ?case by simp
next
  case (Cons x xs)
  show ?case
    by (cases rule: push_result_cases [of w branch x]) (simp_all add: Cons push_ok_def)
qed

lemma collect_keeps [simp]:
  "invoked (snd (collect futures c f s)) = invoked s"
  "config (snd (collect futures c f s)) = config s"
  by (induction futures c f s rule: collect.induct) (simp_all add: emit_def)

lemma collect_out:
  "\<exists>evs. out (snd (collect futures c f s)) = out s @ evs
         \<and> (\<forall>t. PrintInfo t \<notin> set evs)"
proof (induction futures c f s rule: collect.induct)
  case (1 c f s)
  show ?case by simp
next
  case (2 remote ok futures c f s)
  then show ?case by (cases "truthy ok") (auto simp: emit_def)
next
  case (3 remote e futures c f s)
  then show ?case by (auto simp: emit_def)
qed

lemma filter_as_completed_length:
  "length (filter P (as_completed ks xs)) = length (filter P xs)"
proof -
  have "mset (filter P (as_completed ks xs)) = mset (filter P xs)"
    by (simp add: mset_as_completed)
  then show ?thesis by (metis size_mset)
qed

lemma no_workers: "min (length xs) (5::nat) = 0 \<longleftrightarrow> xs = []"
  by (cases xs) simp_all

lemma push_parallel_unfold:
  "remotes \<noteq> [] \<Longrightarrow>
   push_parallel w remotes branch s =
     (let s1 = snd (run_workers w branch remotes (emit (parallel_notice (length remotes)) s));
          order = as_completed (schedule w) remotes;
          s2 = snd (collect (map (\<lambda>r. (r, push_result w branch r)) order) 0 [] s1)
      in print_push_summary (int (length (filter (push_ok w branch) order)))
           (int (length remotes)) (filter (\<lambda>r. \<not> push_ok w branch r) order) s2)"
proof -
  assume ne: "remotes \<noteq> []"
  let ?s0 = "emit (parallel_notice (length remotes)) s"
  let ?order = "as_completed (schedule w) remotes"
  obtain rs s1 where rw: "run_workers w branch remotes ?s0 = (rs, s1)"
    by (cases "run_workers w branch remotes ?s0")
  then have rs: "rs = map (push_result w branch) remotes"
    using run_workers_results [of w branch remotes ?s0] by simp
  have futs: "as_completed (schedule w) (zip remotes rs) =
      map (\<lambda>r. (r, push_result w branch r)) ?order"
    by (simp add: rs zip_results as_completed_map)
  obtain cf s2 where co: "collect (map (\<lambda>r. (r, push_result w branch r)) ?order) 0 [] s1 = (cf, s2)"
    by (cases "collect (map (\<lambda>r. (r, push_result w branch r)) ?order) 0 [] s1")
  then have cf: "cf = (int (length (filter (push_ok w branch) ?order)),
                        filter (\<lambda>r. \<not> push_ok w branch r) ?order)"
    using collect_result [of w branch ?order 0 "[]" s1] by simp
  from ne rw futs co cf show ?thesis
    by (simp add: push_parallel_def Let_def no_workers)
qed

lemma push_parallel_summary:
  "remotes \<noteq> [] \<Longrightarrow>
   fst (push_parallel w remotes branch s) =
     Inr \<lparr>succeeded = int (length (filter (push_ok w branch) remotes)),
          total = int (length remotes),
          failed = filter (\<lambda>r. \<not> push_ok w branch r) (as_completed (schedule w) remotes)\<rparr>"
  by (simp add: push_parallel_unfold Let_def filter_as_completed_length)

lemma push_parallel_invoked:
  "remotes \<noteq> [] \<Longrightarrow>
   invoked (snd (push_parallel w remotes (JStr b) s)) =
     invoked s @ map (\<lambda>r. push_argv r b) remotes"
  by (simp add: push_parallel_unfold Let_def emit_def)

lemma push_parallel_out:
  "\<exists>evs. out (snd (push_parallel w remotes branch s)) =
           out s @ parallel_notice (length remotes) # evs"
proof (cases "remotes = []")
  case True
  then show ?thesis by (simp add: push_parallel_def emit_def no_workers)
next
  case False
  let ?s0 = "emit (parallel_notice (length remotes)) s"
  let ?s1 = "snd (run_workers w branch remotes ?s0)"
  let ?order = "as_completed (schedule w) remotes"
  let ?s2 = "snd (collect (map (\<lambda>r. (r, push_result w branch r)) ?order) 0 [] ?s1)"
  obtain e1 where e1: "out ?s1 = out ?s0 @ e1" using run_workers_out by blast
  obtain e2 where e2: "out ?s2 = out ?s1 @ e2" using collect_out by blast
  obtain e3 where e3: "out (snd (print_push_summary (int (length (filter (push_ok w branch) ?order)))
           (int (length remotes)) (filter (\<lambda>r. \<not> push_ok w branch r) ?order) ?s2)) = out ?s2 @ e3"
    using print_push_summary_out by blast
  from False e1 e2 e3 show ?thesis
    by (simp add: push_parallel_unfold Let_def emit_def)
qed

subsection \<open>Concrete runs are evaluated by unfolding\<close>

lemmas run_defs =
  push_sequential_def push_parallel_def push_to_remotes_def andthen_def ret_def
  execute_push_def run_git_command_def subprocess_run_def report_failure_def
  captured_text_def text_of_def ascii_codec_def print_push_summary_def
  emit_def answers_def push_argv_def fresh_def Let_def

lemmas outcome_defs = push_ok_def push_raises_def push_result_def answers_def push_argv_def

subsection \<open>Claims about the summary\<close>

text \<open>
  C1, as the code has it. In sequential mode the failed remotes are listed in the order
  of the request. In parallel mode they are listed in the order in which the futures are
  handed over to the main thread, which is the order of the request only when the
  failing pushes are handed over in that order; nothing in \<^verbatim>\<open>_push_parallel\<close> or
  \<^verbatim>\<open>_print_push_summary\<close> sorts the list afterwards.
\<close>

theorem failed_order:
  "(fst (push_sequential w remotes branch s) = Inr sm \<longrightarrow>
      failed sm = filter (\<lambda>r. \<not> push_ok w branch r) remotes)
   \<and> (remotes \<noteq> [] \<longrightarrow>
      (\<exists>sp. fst (push_parallel w remotes branch s) = Inr sp
          \<and> failed sp = filter (\<lambda>r. \<not> push_ok w branch r)
                          (as_completed (schedule w) remotes)))"
proof (intro conjI impI)
  assume "fst (push_sequential w remotes branch s) = Inr sm"
  from push_sequential_summary(1) [OF this]
  show "failed sm = filter (\<lambda>r. \<not> push_ok w branch r) remotes" by simp
next
  assume "remotes \<noteq> []"
  then show "\<exists>sp. fst (push_parallel w remotes branch s) = Inr sp
          \<and> failed sp = filter (\<lambda>r. \<not> push_ok w branch r)
                          (as_completed (schedule w) remotes)"
    by (simp add: push_parallel_summary)
qed

theorem failed_order_witness:
  "fst (push_sequential mirror_first [''origin'', ''upstream'', ''mirror''] (JStr ''main'') fresh)
     = Inr \<lparr>succeeded = 1, total = 3, failed = [''upstream'', ''mirror'']\<rparr>
   \<and> [''origin'', ''upstream'', ''mirror''] \<noteq> []
   \<and> filter (\<lambda>r. \<not> push_ok mirror_first (JStr ''main'') r) [''origin'', ''upstream'', ''mirror'']
       = [''upstream'', ''mirror'']
   \<and> fst (push_parallel mirror_first [''origin'', ''upstream'', ''mirror''] (JStr ''main'') fresh)
       = Inr \<lparr>succeeded = 1, total = 3, failed = [''mirror'', ''upstream'']\<rparr>
   \<and> filter (\<lambda>r. \<not> push_ok mirror_first (JStr ''main'') r)
         (as_completed (schedule mirror_first) [''origin'', ''upstream'', ''mirror''])
       = [''mirror'', ''upstream'']"
  using failed_order [of mirror_first "[''origin'', ''upstream'', ''mirror'']" "JStr ''main''" fresh
      "\<lparr>succeeded = 1, total = 3, failed = [''upstream'', ''mirror'']\<rparr>"]
  by (simp add: run_defs outcome_defs mirror_first_def)

text \<open>
  C1 as stated fails: both pushes are refused and the push to \<^verbatim>\<open>upstream\<close> is handed
  over first, so the parallel summary lists \<^verbatim>\<open>upstream\<close> before \<^verbatim>\<open>origin\<close>, against
  the order of the request.
\<close>

theorem failed_order_counterexample:
  "fst (push_parallel both_refuse [''origin'', ''upstream''] (JStr ''main'') fresh)
     = Inr \<lparr>succeeded = 0, total = 2, failed = [''upstream'', ''origin'']\<rparr>"
  by (simp add: run_defs both_refuse_def)

text \<open>
  C2. Whenever a dispatch produces its summary, the number of successes and the number
  of failed remotes add up to the total, which is the number of remotes requested. This
  holds in sequential mode, in parallel mode, and for the mode \<^verbatim>\<open>_push_to_remotes\<close>
  picks, whatever each push does (accepted, refused, or raising an exception). A parallel
  dispatch to at least one remote always produces its summary; a sequential one does
  when no push raises.
\<close>

theorem summary_counts:
  "(fst (push_sequential w remotes branch s) = Inr sm \<longrightarrow>
      succeeded sm + int (length (failed sm)) = total sm \<and> total sm = int (length remotes))
   \<and> (fst (push_parallel w remotes branch s) = Inr sp \<longrightarrow>
      succeeded sp + int (length (failed sp)) = total sp \<and> total sp = int (length remotes))
   \<and> (fst (push_to_remotes w remotes branch use_parallel s) = Inr sd \<longrightarrow>
      succeeded sd + int (length (failed sd)) = total sd \<and> total sd = int (length remotes))
   \<and> (remotes \<noteq> [] \<longrightarrow> (\<exists>x. fst (push_parallel w remotes branch s) = Inr x))
   \<and> ((\<forall>r \<in> set remotes. \<not> push_raises w branch r) \<longrightarrow>
        (\<exists>x. fst (push_sequential w remotes branch s) = Inr x))"
proof -
  have count: "int (length (filter P xs)) + int (length (filter (\<lambda>r. \<not> P r) xs)) = int (length xs)"
    for P :: "string \<Rightarrow> bool" and xs
    using sum_length_filter_compl [of P xs] by linarith
  have seq: "succeeded x + int (length (failed x)) = total x \<and> total x = int (length remotes)"
    if "fst (push_sequential w remotes branch s) = Inr x" for x
    using push_sequential_summary(1) [OF that] count [of "push_ok w branch" remotes] by simp
  have par: "succeeded x + int (length (failed x)) = total x \<and> total x = int (length remotes)"
    if "fst (push_parallel w remotes branch s) = Inr x" for x
  proof (cases "remotes = []")
    case True
    with that show ?thesis by (simp add: push_parallel_def no_workers)
  next
    case False
    from that push_parallel_summary [OF False, of w branch s]
    have "x = \<lparr>succeeded = int (length (filter (push_ok w branch) remotes)),
               total = int (length remotes),
               failed = filter (\<lambda>r. \<not> push_ok w branch r) (as_completed (schedule w) remotes)\<rparr>"
      by simp
    then show ?thesis
      using count [of "push_ok w branch" remotes]
      by (simp add: filter_as_completed_length)
  qed
  have disp: "succeeded x + int (length (failed x)) = total x \<and> total x = int (length remotes)"
    if "fst (push_to_remotes w remotes branch use_parallel s) = Inr x" for x
    using that seq [of x] par [of x] by (simp add: push_to_remotes_def split: if_splits)
  show ?thesis
    using seq [of sm] par [of sp] disp [of sd] push_sequential_returns [of remotes w branch s]
    by (auto simp: push_parallel_summary)
qed

theorem summary_counts_witness:
  "fst (push_sequential scenario [''origin'', ''upstream'', ''mirror''] (JStr ''main'') fresh)
     = Inr \<lparr>succeeded = 2, total = 3, failed = [''upstream'']\<rparr>
   \<and> fst (push_parallel scenario [''origin'', ''upstream'', ''mirror''] (JStr ''main'') fresh)
     = Inr \<lparr>succeeded = 2, total = 3, failed = [''upstream'']\<rparr>
   \<and> fst (push_to_remotes scenario [''origin'', ''upstream'', ''mirror''] (JStr ''main'') True fresh)
     = Inr \<lparr>succeeded = 2, total = 3, failed = [''upstream'']\<rparr>
   \<and> \<not> push_raises scenario (JStr ''main'') ''origin''
   \<and> \<not> push_raises scenario (JStr ''main'') ''upstream''
   \<and> \<not> push_raises scenario (JStr ''main'') ''mirror''
   \<and> (2::int) + int (length [''upstream'']) = 3
   \<and> (3::int) = int (length [''origin'', ''upstream'', ''mirror''])"
  using summary_counts [of scenario "[''origin'', ''upstream'', ''mirror'']" "JStr ''main''" fresh
      "\<lparr>succeeded = 2, total = 3, failed = [''upstream'']\<rparr>"
      "\<lparr>succeeded = 2, total = 3, failed = [''upstream'']\<rparr>" True
      "\<lparr>succeeded = 2, total = 3, failed = [''upstream'']\<rparr>"]
  by (simp add: run_defs outcome_defs scenario_def default_config_def dict_get_default_def key_eq_def)

text \<open>
  C3, as the code has it. When no push raises an exception, the two modes report the
  same total, the same number of successes and the same failed remotes, each as often
  as the other; the parallel list is in hand-over order, so the two summaries are equal
  when the futures are handed over in the order of the request.
\<close>

theorem mode_equivalence:
  assumes "remotes \<noteq> []" and "\<forall>r \<in> set remotes. \<not> push_raises w branch r"
  shows "\<exists>sq sp. fst (push_sequential w remotes branch s) = Inr sq
           \<and> fst (push_parallel w remotes branch s) = Inr sp
           \<and> total sq = total sp \<and> succeeded sq = succeeded sp
           \<and> mset (failed sq) = mset (failed sp)
           \<and> (as_completed (schedule w) remotes = remotes \<longrightarrow> sq = sp)"
proof -
  obtain sq where sq: "fst (push_sequential w remotes branch s) = Inr sq"
    using push_sequential_returns [OF assms(2)] by blast
  note sq_eq = push_sequential_summary(1) [OF sq]
  let ?sp = "\<lparr>succeeded = int (length (filter (push_ok w branch) remotes)),
              total = int (length remotes),
              failed = filter (\<lambda>r. \<not> push_ok w branch r) (as_completed (schedule w) remotes)\<rparr>"
  have sp: "fst (push_parallel w remotes branch s) = Inr ?sp"
    using assms(1) by (rule push_parallel_summary)
  have "mset (failed sq) = mset (failed ?sp)"
    by (simp add: sq_eq mset_as_completed)
  moreover have "as_completed (schedule w) remotes = remotes \<longrightarrow> sq = ?sp"
    by (simp add: sq_eq)
  ultimately show ?thesis
    using sq sp sq_eq by auto
qed

theorem mode_equivalence_witness:
  "[''origin'', ''upstream'', ''mirror''] \<noteq> []
   \<and> \<not> push_raises (scenario\<lparr>schedule := []\<rparr>) (JStr ''main'') ''origin''
   \<and> \<not> push_raises (scenario\<lparr>schedule := []\<rparr>) (JStr ''main'') ''upstream''
   \<and> \<not> push_raises (scenario\<lparr>schedule := []\<rparr>) (JStr ''main'') ''mirror''
   \<and> as_completed (schedule (scenario\<lparr>schedule := []\<rparr>)) [''origin'', ''upstream'', ''mirror'']
       = [''origin'', ''upstream'', ''mirror'']
   \<and> fst (push_sequential (scenario\<lparr>schedule := []\<rparr>) [''origin'', ''upstream'', ''mirror'']
            (JStr ''main'') fresh)
       = Inr \<lparr>succeeded = 2, total = 3, failed = [''upstream'']\<rparr>
   \<and> fst (push_parallel (scenario\<lparr>schedule := []\<rparr>) [''origin'', ''upstream'', ''mirror'']
            (JStr ''main'') fresh)
       = Inr \<lparr>succeeded = 2, total = 3, failed = [''upstream'']\<rparr>"
  using mode_equivalence [of "[''origin'', ''upstream'', ''mirror'']" "scenario\<lparr>schedule := []\<rparr>"
      "JStr ''main''" fresh]
  by (simp add: run_defs outcome_defs scenario_def)

text \<open>
  C3 as stated fails: with the same outcome for every remote, the sequential summary
  lists \<^verbatim>\<open>upstream\<close> before \<^verbatim>\<open>mirror\<close> and the parallel one \<^verbatim>\<open>mirror\<close> before
  \<^verbatim>\<open>upstream\<close>.
\<close>

theorem mode_equivalence_counterexample:
  "fst (push_sequential mirror_first [''origin'', ''upstream'', ''mirror''] (JStr ''main'') fresh)
     = Inr \<lparr>succeeded = 1, total = 3, failed = [''upstream'', ''mirror'']\<rparr>
   \<and> fst (push_parallel mirror_first [''origin'', ''upstream'', ''mirror''] (JStr ''main'') fresh)
     = Inr \<lparr>succeeded = 1, total = 3, failed = [''mirror'', ''upstream'']\<rparr>"
  by (simp add: run_defs mirror_first_def)

subsection \<open>The choice of the mode\<close>

lemma printed_since_append [simp]:
  "out s' = out s @ evs \<Longrightarrow> printed_since s s' = evs"
  by (simp add: printed_since_def)

lemma invoked_since_append [simp]:
  "invoked s' = invoked s @ xs \<Longrightarrow> invoked_since s s' = xs"
  by (simp add: invoked_since_def)

text \<open>
  C5. \<^verbatim>\<open>_push_parallel\<close> announces itself with a line that \<^verbatim>\<open>_push_sequential\<close> never
  prints. If that line appears during a dispatch, the caller asked for a parallel push,
  there is more than one remote, and the setting \<^verbatim>\<open>parallel_push\<close> is true (or absent,
  which counts as true). With one remote or none the dispatch is the sequential one; and
  when all three conditions hold it is the parallel one, and the line appears.
\<close>

theorem parallel_only_when_enabled:
  "(PrintInfo t \<in> set (printed_since s (snd (push_to_remotes w remotes branch use_parallel s)))
      \<longrightarrow> use_parallel \<and> 1 < length remotes
          \<and> truthy (dict_get_default (config s) (JStr ''parallel_push'') (JBool True)))
   \<and> (length remotes \<le> 1 \<longrightarrow>
        push_to_remotes w remotes branch use_parallel s = push_sequential w remotes branch s)
   \<and> (use_parallel \<and> 1 < length remotes
        \<and> truthy (dict_get_default (config s) (JStr ''parallel_push'') (JBool True)) \<longrightarrow>
        push_to_remotes w remotes branch use_parallel s = push_parallel w remotes branch s
        \<and> parallel_notice (length remotes)
            \<in> set (printed_since s (snd (push_to_remotes w remotes branch use_parallel s))))"
proof -
  let ?d = "push_to_remotes w remotes branch use_parallel s"
  let ?enabled = "use_parallel \<and> 1 < length remotes
          \<and> truthy (dict_get_default (config s) (JStr ''parallel_push'') (JBool True))"
  have a: ?enabled if probe: "PrintInfo t \<in> set (printed_since s (snd ?d))"
  proof -
    obtain evs where "out (snd (push_sequential w remotes branch s)) = out s @ evs"
        "\<forall>t. PrintInfo t \<notin> set evs"
      using push_sequential_out by blast
    then have "PrintInfo t \<notin> set (printed_since s (snd (push_sequential w remotes branch s)))"
      by simp
    with probe have "?d \<noteq> push_sequential w remotes branch s"
      by auto
    then show ?thesis
      by (auto simp: push_to_remotes_def split: if_splits)
  qed
  have b: "?d = push_sequential w remotes branch s" if "length remotes \<le> 1"
    using that by (simp add: push_to_remotes_def)
  have c: "?d = push_parallel w remotes branch s
      \<and> parallel_notice (length remotes) \<in> set (printed_since s (snd ?d))" if ?enabled
  proof -
    have d: "?d = push_parallel w remotes branch s"
      using that by (simp add: push_to_remotes_def)
    obtain evs where "out (snd (push_parallel w remotes branch s)) =
        out s @ parallel_notice (length remotes) # evs"
      using push_parallel_out by blast
    then have "parallel_notice (length remotes)
        \<in> set (printed_since s (snd (push_parallel w remotes branch s)))"
      by simp
    with d show ?thesis by simp
  qed
  from a b c show ?thesis by blast
qed

theorem parallel_only_when_enabled_witness:
  "PrintInfo [Lit ''Pushing to '', Val (JInt 2), Lit '' remotes in parallel...'']
      \<in> set (printed_since fresh
           (snd (push_to_remotes scenario [''origin'', ''upstream''] (JStr ''main'') True fresh)))
   \<and> 1 < length [''origin'', ''upstream'']
   \<and> truthy (dict_get_default (config fresh) (JStr ''parallel_push'') (JBool True))
   \<and> length [''origin''] \<le> 1
   \<and> push_to_remotes scenario [''origin''] (JStr ''main'') True fresh
       = push_sequential scenario [''origin''] (JStr ''main'') fresh
   \<and> printed_since fresh (snd (push_to_remotes scenario [''origin''] (JStr ''main'') True fresh))
       = [PrintWorking [Lit ''Pushing to '', Lit ''origin'', Lit ''...''],
          PrintSuccess [Lit tick, Lit ''Pushed to '', Lit ''origin''],
          Print [Lit (CHR 0x0A # ''Summary: ''), Val (JInt 1), Lit ''/'', Val (JInt 1),
                 Lit '' remotes successful'']]"
  using parallel_only_when_enabled [of "[Lit ''Pushing to '', Val (JInt 2), Lit '' remotes in parallel...'']"
      fresh scenario "[''origin'', ''upstream'']" "JStr ''main''" True]
    parallel_only_when_enabled [of "[]" fresh scenario "[''origin'']" "JStr ''main''" True]
  by (simp add: run_defs scenario_def printed_since_def parallel_notice_def default_config_def
        dict_get_default_def key_eq_def)

subsection \<open>Failures and exceptions during a dispatch\<close>

lemma strs_of_strings [simp]: "strs_of (map JStr argv) = Some argv"
  by (induction argv) simp_all

text \<open>
  A non-zero exit status is not an exception: \<^verbatim>\<open>run_git_command\<close> returns \<^verbatim>\<open>False\<close> and
  prints the command that failed (when the output is captured as text, provided it is
  text).
\<close>

lemma refused_command_returns_False:
  assumes "git w argv = Exited rc sout serr" and "rc \<noteq> 0"
    and "capture_output \<longrightarrow> captured_text w sout serr \<noteq> None"
  shows "fst (run_git_command w (map JStr argv) capture_output show_output s) = Inr (JBool False)"
    and "PrintError [Lit ''Git command failed: '', Lit (join '' '' argv)]
           \<in> set (printed_since s (snd (run_git_command w (map JStr argv) capture_output show_output s)))"
  using assms
  by (auto simp: run_git_command_def subprocess_run_def Let_def report_failure_out
        printed_since_def)

text \<open>
  In sequential mode pushes that are refused do not stop the loop: when no push raises
  an exception, every remote is pushed to, in order, and the summary is produced.
\<close>

lemma sequential_survives_refusals:
  assumes "\<forall>r \<in> set remotes. \<not> push_raises w (JStr b) r"
  shows "\<exists>sm. fst (push_sequential w remotes (JStr b) s) = Inr sm
           \<and> failed sm = filter (\<lambda>r. \<not> push_ok w (JStr b) r) remotes"
    and "invoked_since s (snd (push_sequential w remotes (JStr b) s)) =
           map (\<lambda>r. push_argv r b) remotes"
proof -
  obtain sm where sm: "fst (push_sequential w remotes (JStr b) s) = Inr sm"
    using push_sequential_returns [OF assms] by blast
  with push_sequential_summary(1) [OF sm]
  show "\<exists>sm. fst (push_sequential w remotes (JStr b) s) = Inr sm
           \<and> failed sm = filter (\<lambda>r. \<not> push_ok w (JStr b) r) remotes"
    by simp
  show "invoked_since s (snd (push_sequential w remotes (JStr b) s)) =
           map (\<lambda>r. push_argv r b) remotes"
    using push_sequential_invoked [OF assms] by simp
qed

text \<open>
  In parallel mode neither a refused push nor an exception in a worker stops the
  dispatch: every remote is pushed to and the summary is produced, whatever the pushes do.
\<close>

lemma parallel_survives_everything:
  assumes "remotes \<noteq> []"
  shows "\<exists>sp. fst (push_parallel w remotes (JStr b) s) = Inr sp
           \<and> set (failed sp) = {r \<in> set remotes. \<not> push_ok w (JStr b) r}"
    and "invoked_since s (snd (push_parallel w remotes (JStr b) s)) =
           map (\<lambda>r. push_argv r b) remotes"
  using assms
  by (auto simp: push_parallel_summary push_parallel_invoked set_as_completed)

text \<open>
  C9 at the input where the code departs from it. Parallel pushes are switched off in
  the settings and the tool cannot be started for the push to \<^verbatim>\<open>origin\<close>: the
  \<^verbatim>\<open>OSError\<close> leaves \<^verbatim>\<open>_push_to_remotes\<close>, the push to \<^verbatim>\<open>upstream\<close> is never attempted
  and no summary is printed. With the default settings the same pushes run in parallel:
  the exception is caught, \<^verbatim>\<open>upstream\<close> is pushed to and the summary reports \<^verbatim>\<open>origin\<close>
  as failed.
\<close>

theorem sequential_push_aborts:
  "push_to_remotes origin_unstartable [''origin'', ''upstream''] (JStr ''main'') True sequential_only
     = (Inl OSError,
        sequential_only
          \<lparr>out := [PrintWorking [Lit ''Pushing to '', Lit ''origin'', Lit ''...'']],
           invoked := [[''git'', ''push'', ''origin'', ''main'']]\<rparr>)
   \<and> fst (push_to_remotes origin_unstartable [''origin'', ''upstream''] (JStr ''main'') True fresh)
     = Inr \<lparr>succeeded = 1, total = 2, failed = [''origin'']\<rparr>
   \<and> invoked (snd (push_to_remotes origin_unstartable [''origin'', ''upstream''] (JStr ''main'')
                     True fresh))
     = [[''git'', ''push'', ''origin'', ''main''], [''git'', ''push'', ''upstream'', ''main'']]"
  by (simp add: run_defs origin_unstartable_def sequential_only_def default_config_def
        dict_get_default_def key_eq_def)

subsection \<open>Asking for the remotes\<close>

lemma translate_newlines_plain:
  "CHR 0x0D \<notin> set t \<Longrightarrow> translate_newlines t = t"
  by (induction t rule: translate_newlines.induct) auto




subsection \<open>Branch names\<close>

lemma py_in_sublist: "py_in sub s \<longleftrightarrow> sublist sub s"
  by (induction s) (auto simp: sublist_Cons_right)

lemma endswith_suffix: "endswith s p \<longleftrightarrow> suffix p s"
  by (simp add: endswith_def suffix_to_prefix)

lemma space_sublist: "CHR '' '' \<in> set name \<longleftrightarrow> sublist '' '' name"
  by (induction name) (auto simp: sublist_Cons_right)

lemma validate_branch_name_rejects:
  assumes "CHR '' '' \<in> set name \<or> prefix ''-'' name \<or> suffix ''.'' name
           \<or> suffix ''.lock'' name \<or> sublist ''..'' name"
  shows "\<not> validate_branch_name name"
  using assms
  by (auto simp: validate_branch_name_def invalid_chars_def py_in_sublist endswith_suffix
        startswith_def space_sublist)

lemma test_validate_branch_name:
  "validate_branch_name ''main''" "validate_branch_name ''feature/new-feature''"
  "validate_branch_name ''bugfix-123''" "validate_branch_name ''release-v1.0.0''"
  "\<not> validate_branch_name []" "\<not> validate_branch_name ''feature branch''"
  "\<not> validate_branch_name ''feature~123''" "\<not> validate_branch_name ''feature^123''"
  "\<not> validate_branch_name ''feature:123''" "\<not> validate_branch_name ''feature?123''"
  "\<not> validate_branch_name ''feature*123''" "\<not> validate_branch_name ''feature[123]''"
  "\<not> validate_branch_name ''-feature''" "\<not> validate_branch_name ''feature.''"
  "\<not> validate_branch_name ''feature.lock''" "\<not> validate_branch_name ''feature..branch''"
  by (simp_all add: validate_branch_name_def invalid_chars_def startswith_def endswith_def)

lemma create_branch_rejects:
  assumes "stdin s = line # rest" and "\<not> validate_branch_name (strip line)"
  shows "invoked (snd (interactive_create_branch w s)) = invoked s"
  using assms
  by (cases rest)
     (simp_all add: interactive_create_branch_def get_input_def andthen_def ret_def input_def
        say_def press_enter_def emit_def)

lemma dispatch_invokes_each_entry:
  assumes "\<forall>r \<in> set remotes. \<not> push_raises w (JStr b) r"
  shows "invoked_since s (snd (push_to_remotes w remotes (JStr b) use_parallel s)) =
           map (\<lambda>r. push_argv r b) remotes"
proof (cases "use_parallel \<and> truthy (dict_get_default (config s) (JStr ''parallel_push'') (JBool True))
         \<and> length remotes > 1")
  case True
  then have "remotes \<noteq> []" by auto
  with True show ?thesis
    by (simp add: push_to_remotes_def push_parallel_invoked)
next
  case False
  then show ?thesis
    using push_sequential_invoked [OF assms, of s]
    by (auto simp: push_to_remotes_def)
qed

lemmas flow_defs =
  interactive_push_multiple_def get_remotes_def get_input_def
  get_multiple_choice_def menu_lines_def config_item_def input_def say_def press_enter_def
  add_to_history_def save_history_def slice_from_def raise_def py_and_def dict_get_default_def
  key_eq_def default_config_def strip_def is_space_def py_int_def parse_nat_def is_digit_def
  digit_val_def two_remotes_def

text \<open>
  C4, as the code has it. \<^verbatim>\<open>validate_branch_name\<close> rejects every name that contains a
  space or two dots in a row, starts with a dash, or ends with a dot or with \<^verbatim>\<open>.lock\<close>.
  The check is made where a branch is created: a rejected name there starts no process.
  A push dispatch does not check the branch name: whatever the name, it starts one push
  for each selected remote (as long as no push raises an exception).
\<close>

theorem branch_name_validation:
  "(CHR '' '' \<in> set name \<or> prefix ''-'' name \<or> suffix ''.'' name
      \<or> suffix ''.lock'' name \<or> sublist ''..'' name \<longrightarrow> \<not> validate_branch_name name)
   \<and> (stdin s = line # rest \<and> \<not> validate_branch_name (strip line) \<longrightarrow>
        invoked (snd (interactive_create_branch w s)) = invoked s)
   \<and> ((\<forall>r \<in> set remotes. \<not> push_raises w (JStr b) r) \<longrightarrow>
        invoked_since s' (snd (push_to_remotes w remotes (JStr b) use_parallel s')) =
          map (\<lambda>r. push_argv r b) remotes)"
  using validate_branch_name_rejects [of name] create_branch_rejects [of s line rest w]
    dispatch_invokes_each_entry [of remotes w b s' use_parallel]
  by blast

theorem branch_name_validation_witness:
  "CHR '' '' \<in> set ''bad branch'' \<and> \<not> validate_branch_name ''bad branch''
   \<and> stdin (fresh\<lparr>stdin := [''bad branch'', [], ''later'']\<rparr>) = ''bad branch'' # [[], ''later'']
   \<and> \<not> validate_branch_name (strip ''bad branch'')
   \<and> interactive_create_branch two_remotes (fresh\<lparr>stdin := [''bad branch'', [], ''later'']\<rparr>)
       = (Inr (),
          fresh\<lparr>stdin := [''later''],
                out := [Input [Lit ''Enter new branch name'', Lit '': ''],
                        PrintError [Lit ''Invalid branch name! Avoid spaces and special characters.''],
                        Input [Lit ''Press Enter to continue...'']]\<rparr>)
   \<and> \<not> push_raises two_remotes (JStr ''bad branch'') ''origin''
   \<and> \<not> push_raises two_remotes (JStr ''bad branch'') ''upstream''
   \<and> invoked_since fresh
        (snd (push_to_remotes two_remotes [''origin'', ''upstream''] (JStr ''bad branch'') False fresh))
       = [[''git'', ''push'', ''origin'', ''bad branch''],
          [''git'', ''push'', ''upstream'', ''bad branch'']]"
  using branch_name_validation [where name = "''bad branch''"
      and s = "fresh\<lparr>stdin := [''bad branch'', [], ''later'']\<rparr>"
      and line = "''bad branch''" and rest = "[[], ''later'']" and w = two_remotes
      and remotes = "[''origin'', ''upstream'']" and b = "''bad branch''"
      and use_parallel = False and s' = fresh]
  by (simp add: interactive_create_branch_def flow_defs run_defs outcome_defs
        validate_branch_name_def invalid_chars_def startswith_def endswith_def invoked_since_def)

text \<open>
  C4 as stated fails. In a repository with two remotes the user types the branch name
  \<^verbatim>\<open>bad branch\<close>, which \<^verbatim>\<open>validate_branch_name\<close> rejects, and selects both remotes:
  \<^verbatim>\<open>interactive_push_multiple\<close> starts a push of that name to each of them.
\<close>

theorem branch_name_validation_counterexample:
  "\<not> validate_branch_name ''bad branch''
   \<and> invoked (snd (interactive_push_multiple two_remotes
                     (fresh\<lparr>stdin := [''bad branch'', ''1,2'', []]\<rparr>)))
       = [[''git'', ''remote''], [''git'', ''branch'', ''--show-current''],
          [''git'', ''push'', ''origin'', ''bad branch''],
          [''git'', ''push'', ''upstream'', ''bad branch'']]"
  by (simp add: flow_defs run_defs validate_branch_name_def invalid_chars_def
        startswith_def endswith_def)


subsection \<open>Selecting remotes\<close>

lemma select_loop_in_range:
  "\<forall>n \<in> set nums. 1 \<le> n \<and> n \<le> int (length choices) \<Longrightarrow>
     select_loop choices nums selected =
       Inr (selected @ map (\<lambda>n. choices ! nat (n - 1)) nums)"
  by (induction nums arbitrary: selected) simp_all

lemma get_multiple_choice_selected:
  assumes "stdin s = line # rest" and "strip line \<noteq> []"
    and "parse_ints (split_on (CHR '','') (strip line)) = Some nums"
    and "\<forall>n \<in> set nums. 1 \<le> n \<and> n \<le> int (length choices)"
  shows "fst (get_multiple_choice prompt choices s) =
           Inr (map (\<lambda>n. choices ! nat (n - 1)) nums)"
    and "stdin (snd (get_multiple_choice prompt choices s)) = rest"
  using assms
  by (simp_all add: get_multiple_choice_def Let_def select_loop_in_range)

lemma push_to_remotes_total:
  assumes "fst (push_to_remotes w remotes branch use_parallel s) = Inr sm"
  shows "total sm = int (length remotes)"
proof (cases "use_parallel \<and> truthy (dict_get_default (config s) (JStr ''parallel_push'') (JBool True))
         \<and> length remotes > 1")
  case True
  then have "remotes \<noteq> []" by auto
  from push_parallel_summary [OF this, of w branch s] True assms
  show ?thesis by (auto simp: push_to_remotes_def)
next
  case False
  with assms have "fst (push_sequential w remotes branch s) = Inr sm"
    by (auto simp: push_to_remotes_def)
  from push_sequential_summary(1) [OF this] show ?thesis by simp
qed

text \<open>
  C6, as the code has it. \<^verbatim>\<open>get_multiple_choice\<close> returns one entry for each number
  typed, in the order typed, and keeps a remote that is named twice. The dispatch pushes
  once for each entry of the list it is given, so a remote that occurs \<open>k\<close> times in the
  selection is pushed to \<open>k\<close> times and counted \<open>k\<close> times in the total (as long as no
  push raises an exception); a selection without repetition leads to one push for each
  remote.
\<close>

theorem selection_keeps_duplicates:
  "(stdin s = line # rest \<and> strip line \<noteq> []
      \<and> parse_ints (split_on (CHR '','') (strip line)) = Some nums
      \<and> (\<forall>n \<in> set nums. 1 \<le> n \<and> n \<le> int (length choices)) \<longrightarrow>
      fst (get_multiple_choice prompt choices s) = Inr (map (\<lambda>n. choices ! nat (n - 1)) nums))
   \<and> ((\<forall>r \<in> set remotes. \<not> push_raises w (JStr b) r) \<longrightarrow>
        invoked_since s' (snd (push_to_remotes w remotes (JStr b) use_parallel s')) =
          map (\<lambda>r. push_argv r b) remotes
        \<and> count_list (invoked_since s' (snd (push_to_remotes w remotes (JStr b) use_parallel s')))
              (push_argv r b) = count_list remotes r
        \<and> (\<forall>sm. fst (push_to_remotes w remotes (JStr b) use_parallel s') = Inr sm \<longrightarrow>
               total sm = int (length remotes))
        \<and> (distinct remotes \<longrightarrow>
               distinct (invoked_since s' (snd (push_to_remotes w remotes (JStr b) use_parallel s')))))"
proof -
  have inj: "inj (\<lambda>r. push_argv r b)"
    by (simp add: inj_def push_argv_def)
  have cnt: "count_list (map (\<lambda>r. push_argv r b) remotes) (push_argv r b) = count_list remotes r"
    by (induction remotes) (auto simp: push_argv_def)
  have dis: "distinct remotes \<Longrightarrow> distinct (map (\<lambda>r. push_argv r b) remotes)"
    using inj by (simp add: distinct_map inj_def inj_on_def)
  have tot: "total sm = int (length remotes)"
    if "fst (push_to_remotes w remotes (JStr b) use_parallel s') = Inr sm" for sm
    using that by (rule push_to_remotes_total)
  show ?thesis
    using get_multiple_choice_selected(1) [of s line rest nums choices prompt]
      dispatch_invokes_each_entry [of remotes w b s' use_parallel] cnt dis tot
    by auto
qed


theorem selection_keeps_duplicates_witness:
  "stdin (fresh\<lparr>stdin := [''2, 1,2'', ''later'']\<rparr>) = ''2, 1,2'' # [''later'']
   \<and> strip ''2, 1,2'' \<noteq> []
   \<and> parse_ints (split_on (CHR '','') (strip ''2, 1,2'')) = Some [2, 1, 2]
   \<and> fst (get_multiple_choice ''Select remotes to push to:'' [''origin'', ''upstream'']
            (fresh\<lparr>stdin := [''2, 1,2'', ''later'']\<rparr>))
       = Inr [''upstream'', ''origin'', ''upstream'']
   \<and> \<not> push_raises two_remotes (JStr ''main'') ''origin''
   \<and> \<not> push_raises two_remotes (JStr ''main'') ''upstream''
   \<and> invoked_since fresh
        (snd (push_to_remotes two_remotes [''upstream'', ''origin'', ''upstream''] (JStr ''main'')
               True fresh))
       = [[''git'', ''push'', ''upstream'', ''main''], [''git'', ''push'', ''origin'', ''main''],
          [''git'', ''push'', ''upstream'', ''main'']]
   \<and> count_list [''upstream'', ''origin'', ''upstream''] ''upstream'' = 2
   \<and> fst (push_to_remotes two_remotes [''upstream'', ''origin'', ''upstream''] (JStr ''main'')
            True fresh)
       = Inr \<lparr>succeeded = 3, total = 3, failed = []\<rparr>
   \<and> distinct [''origin'', ''upstream'']
   \<and> invoked_since fresh
        (snd (push_to_remotes two_remotes [''origin'', ''upstream''] (JStr ''main'') True fresh))
       = [[''git'', ''push'', ''origin'', ''main''], [''git'', ''push'', ''upstream'', ''main'']]"
  using selection_keeps_duplicates [where s = "fresh\<lparr>stdin := [''2, 1,2'', ''later'']\<rparr>"
      and line = "''2, 1,2''" and rest = "[''later'']" and nums = "[2, 1, 2]"
      and choices = "[''origin'', ''upstream'']" and prompt = "''Select remotes to push to:''"
      and remotes = "[''upstream'', ''origin'', ''upstream'']" and w = two_remotes
      and b = "''main''" and s' = fresh and use_parallel = True and r = "''upstream''"]
    selection_keeps_duplicates [where s = "fresh\<lparr>stdin := [''2, 1,2'', ''later'']\<rparr>"
      and line = "''2, 1,2''" and rest = "[''later'']" and nums = "[2, 1, 2]"
      and choices = "[''origin'', ''upstream'']" and prompt = "''Select remotes to push to:''"
      and remotes = "[''origin'', ''upstream'']" and w = two_remotes
      and b = "''main''" and s' = fresh and use_parallel = True and r = "''upstream''"]
  by (simp add: flow_defs run_defs outcome_defs invoked_since_def)

text \<open>
  C6 as stated fails. The user answers \<^verbatim>\<open>1,1\<close> at the selection prompt: the selection is
  \<^verbatim>\<open>origin\<close> twice, and \<^verbatim>\<open>interactive_push_multiple\<close> pushes to \<^verbatim>\<open>origin\<close> twice.
\<close>

theorem selection_counterexample:
  "fst (get_multiple_choice ''Select remotes to push to:'' [''origin'', ''upstream'']
         (fresh\<lparr>stdin := [''1,1'']\<rparr>))
     = Inr [''origin'', ''origin'']
   \<and> invoked (snd (interactive_push_multiple two_remotes
                     (fresh\<lparr>stdin := [''main'', ''1,1'', []]\<rparr>)))
       = [[''git'', ''remote''], [''git'', ''branch'', ''--show-current''],
          [''git'', ''push'', ''origin'', ''main''], [''git'', ''push'', ''origin'', ''main'']]"
  by (simp add: flow_defs run_defs)

subsection \<open>The history\<close>

lemma slice_from_negative: "1 \<le> n \<Longrightarrow> slice_from (- n) xs = last_n (nat n) xs"
  by (auto simp: slice_from_def last_n_def Let_def max_def intro: arg_cong [where f = "\<lambda>k. drop k xs"])

lemma slice_from_zero: "slice_from 0 xs = xs"
  by (simp add: slice_from_def)

lemma last_n_append: "last_n n (last_n n xs @ ys) = last_n n (xs @ ys)"
proof (cases "n \<le> length xs")
  case True
  define k where "k = length xs - n"
  have "last_n n (drop k xs @ ys) = drop (length ys) (drop k xs @ ys)"
    using True by (simp add: last_n_def k_def)
  also have "\<dots> = drop (length ys) (drop k (xs @ ys))"
    by (simp add: k_def)
  also have "\<dots> = drop (length ys + k) (xs @ ys)"
    by (simp only: drop_drop)
  also have "length ys + k = length (xs @ ys) - n"
    using True by (simp add: k_def)
  finally show ?thesis
    by (simp add: last_n_def k_def)
next
  case False
  then show ?thesis by (simp add: last_n_def)
qed

lemma length_last_n: "length (last_n n xs) = min n (length xs)"
  by (auto simp: last_n_def)

text \<open>
  With a positive integer \<open>n\<close> under \<^verbatim>\<open>max_history\<close>, an addition leaves the last \<open>n\<close>
  entries in memory, oldest first, and the same list in the file when it can be written.
\<close>

lemma add_to_history_positive:
  assumes "dict_get_default (config s) (JStr ''max_history'') (JInt 20) = JInt n" and "1 \<le> n"
  shows "fst (add_to_history w cmd descr s) = Inr ()"
    and "history (snd (add_to_history w cmd descr s)) =
           last_n (nat n) (history s @ [\<lparr>command = cmd, description = descr, timestamp = clock w\<rparr>])"
    and "history_writable w \<Longrightarrow>
           history_file (snd (add_to_history w cmd descr s)) =
             Some (history (snd (add_to_history w cmd descr s)))"
    and "config (snd (add_to_history w cmd descr s)) = config s"
  using assms
  by (simp_all add: add_to_history_def save_history_def Let_def slice_from_negative)

lemma add_all_positive:
  assumes "dict_get_default (config s) (JStr ''max_history'') (JInt 20) = JInt n" and "1 \<le> n"
    and "items \<noteq> []"
  shows "fst (add_all w items s) = Inr ()
       \<and> config (snd (add_all w items s)) = config s
       \<and> history (snd (add_all w items s)) =
           last_n (nat n) (history s @ map (\<lambda>(cmd, descr).
              \<lparr>command = cmd, description = descr, timestamp = clock w\<rparr>) items)
       \<and> (history_writable w \<longrightarrow>
            history_file (snd (add_all w items s)) = Some (history (snd (add_all w items s))))"
  using assms(1) assms(3)
proof (induction items arbitrary: s)
  case Nil
  then show ?case by simp
next
  case (Cons item items)
  obtain cmd descr where item: "item = (cmd, descr)" by (cases item)
  let ?s1 = "snd (add_to_history w cmd descr s)"
  note a = add_to_history_positive [OF Cons.prems(1) assms(2), of w cmd descr]
  have run: "add_all w (item # items) s = add_all w items ?s1"
    using a(1) by (cases "add_to_history w cmd descr s") (simp add: item)
  show ?case
  proof (cases "items = []")
    case True
    with a run show ?thesis by (simp add: item)
  next
    case False
    have "dict_get_default (config ?s1) (JStr ''max_history'') (JInt 20) = JInt n"
      using a(4) Cons.prems(1) by simp
    from Cons.IH [OF this False] a(2) a(4) run
    show ?thesis by (simp add: item last_n_append)
  qed
qed

text \<open>\<^verbatim>\<open>test_history_limit\<close>: with \<^verbatim>\<open>max_history\<close> 5, ten additions leave the last five.\<close>

lemma test_history_limit:
  "add_all two_remotes (map numbered [0, 1, 2, 3, 4, 5, 6, 7, 8, 9]) (with_max_history (JInt 5))
     = (Inr (), (with_max_history (JInt 5))
          \<lparr>history := map numbered_entry [5, 6, 7, 8, 9],
           history_file := Some (map numbered_entry [5, 6, 7, 8, 9])\<rparr>)"
  by (simp add: add_to_history_def save_history_def slice_from_def numbered_def numbered_entry_def
        with_max_history_def fresh_def default_config_def dict_get_default_def key_eq_def
        two_remotes_def)

text \<open>
  C7 at the input where the code departs from it. With \<^verbatim>\<open>max_history\<close> set to 0 the
  slice \<^verbatim>\<open>self.history[-0:]\<close> is the whole list: after three additions all three
  entries are in memory and in the file, where the claim (and the comment
  \<^verbatim>\<open>Keep only last N commands\<close>) has none.
\<close>

theorem max_history_zero_keeps_everything:
  "add_all two_remotes (map numbered [0, 1, 2]) (with_max_history (JInt 0))
     = (Inr (), (with_max_history (JInt 0))
          \<lparr>history := map numbered_entry [0, 1, 2],
           history_file := Some (map numbered_entry [0, 1, 2])\<rparr>)"
  by (simp add: add_to_history_def save_history_def slice_from_def numbered_def numbered_entry_def
        with_max_history_def fresh_def default_config_def dict_get_default_def key_eq_def
        two_remotes_def)

text \<open>
  Other values of \<^verbatim>\<open>max_history\<close> the settings file can hold: a negative number drops
  that many of the oldest entries at every save, whatever the length; a value that is
  not an integer makes the save raise \<^verbatim>\<open>TypeError\<close>.
\<close>

lemma max_history_other_values:
  "history (snd (add_all two_remotes (map numbered [0, 1, 2]) (with_max_history (JInt (- 1))))) = []"
  "fst (add_all two_remotes (map numbered [0, 1, 2]) (with_max_history (JStr ''5''))) = Inl TypeError"
  "fst (add_all two_remotes (map numbered [0, 1, 2]) (with_max_history (JFloat 5))) = Inl TypeError"
  "fst (add_all two_remotes (map numbered [0, 1, 2]) (with_max_history JNull)) = Inl TypeError"
  by (simp_all add: add_to_history_def save_history_def slice_from_def numbered_def
        with_max_history_def fresh_def default_config_def dict_get_default_def key_eq_def
        two_remotes_def)

subsection \<open>Loading the settings\<close>

lemma key_eq_JStr [simp]: "key_eq k (JStr a) \<longleftrightarrow> k = JStr a"
  by (cases k) (simp_all add: key_eq_def)

lemma dict_get_dict_set_JStr:
  "dict_get (dict_set d (JStr a) v) (JStr b) = (if a = b then Some v else dict_get d (JStr b))"
  by (induction d) auto

lemma dict_get_update_items:
  "dict_get (update_items d kvs) (JStr k) =
     (case map_of (rev kvs) k of None \<Rightarrow> dict_get d (JStr k) | Some v \<Rightarrow> Some v)"
proof (induction kvs arbitrary: d)
  case Nil
  show ?case by simp
next
  case (Cons kv kvs)
  obtain a v where kv: "kv = (a, v)" by (cases kv)
  show ?case
    by (simp add: kv Cons dict_get_dict_set_JStr map_add_def split: option.splits)
qed

text \<open>
  Without a file, with a file that cannot be read, or with a file that is not JSON, the
  settings are the defaults, and nothing is raised.
\<close>

lemma load_config_defaults:
  "load_config Missing = (Inr (), default_config)"
  "load_config Unreadable = (Inr (), default_config)"
  "load_config Garbled = (Inr (), default_config)"
  by (simp_all add: load_config_def)

text \<open>
  With a file that holds a JSON object nothing is raised; a key of the file has the
  value the file gives it (the last one, if the key is repeated), known or not, and every
  other key keeps its default.
\<close>

lemma load_config_object:
  "fst (load_config (Holds (JObj kvs))) = Inr ()"
  "dict_get (snd (load_config (Holds (JObj kvs)))) (JStr k) =
     (case map_of (rev kvs) k of None \<Rightarrow> dict_get default_config (JStr k) | Some v \<Rightarrow> Some v)"
  by (simp_all add: load_config_def dict_get_update_items)

lemma test_save_and_load_config:
  "load_config (Holds (JObj [(''name'', JStr ''Test User''), (''theme'', JStr ''dark'')]))
     = (Inr (),
        [(JStr ''name'', JStr ''Test User''), (JStr ''email'', JStr []),
         (JStr ''default_branch'', JStr ''main''),
         (JStr ''auto_push'', JBool True), (JStr ''show_emoji'', JBool True),
         (JStr ''default_remote'', JStr ''origin''),
         (JStr ''use_colors'', JBool True), (JStr ''parallel_push'', JBool True),
         (JStr ''max_history'', JInt 20), (JStr ''theme'', JStr ''dark'')])"
  by (simp add: load_config_def default_config_def)

text \<open>
  C8 at the inputs where the code departs from it. A settings file whose text is the
  JSON value \<^verbatim>\<open>null\<close> or a number parses, and \<^verbatim>\<open>dict.update\<close> raises \<^verbatim>\<open>TypeError\<close> on
  the value; a JSON string makes it raise \<^verbatim>\<open>ValueError\<close>; a file of bytes that are not
  text makes the read raise \<^verbatim>\<open>UnicodeDecodeError\<close>. \<^verbatim>\<open>load_config\<close> catches
  \<^verbatim>\<open>JSONDecodeError\<close> and \<^verbatim>\<open>IOError\<close> only, so each of them leaves the method.
\<close>

theorem load_config_raises:
  "load_config (Holds JNull) = (Inl TypeError, default_config)
   \<and> load_config (Holds (JInt 7)) = (Inl TypeError, default_config)
   \<and> load_config (Holds (JStr ''main'')) = (Inl ValueError, default_config)
   \<and> load_config (Holds (JList [JInt 1, JInt 2])) = (Inl TypeError, default_config)
   \<and> load_config Undecodable = (Inl UnicodeDecodeError, default_config)"
  by (simp add: load_config_def)

end
